theory Spec2Isabelle
  imports Main "HOL-Library.Word"
begin

unbundle bit_operations_syntax

section \<open>Data model of the session protocol\<close>

text \<open>
  Texts that travel between the session and the host are UTF-8 strings in the source.
  The lengths the protocol carries (\<open>value_length\<close>) and the attribute indices of an
  \<open>IBusText\<close> count characters, not bytes, so a text is modelled as the list of its
  code points. A \<open>std::string\<close> of the protocol may hold the character NUL (code point
  0); the host takes C strings, which end at the first NUL. Property keys, icon names,
  configuration names and diagnostics are plain strings. The numeric fields of the
  protocol are \<open>uint32\<close>, candidate ids are \<open>int32\<close>.
\<close>

type_synonym utf8_text = "nat list"

text \<open>
  \<open>commands::CompositionMode\<close> and \<open>config::Config::PreeditMethod\<close> are declared in
  protocol files outside the adapter. The adapter names only \<open>DIRECT\<close> and \<open>ROMAN\<close>;
  the other values are kept apart by a number.
\<close>

datatype composition_mode = DIRECT | InputMode nat

datatype preedit_method = ROMAN | OtherPreeditMethod nat

datatype special_key = SPACE | ON | OtherSpecialKey nat

datatype key_event = KeyCode nat | SpecialKey special_key

datatype session_command =
    REVERT
  | SUBMIT
  | SELECT_CANDIDATE int
  | SWITCH_INPUT_MODE composition_mode

text \<open>
  \<open>Preedit::Segment::Annotation\<close>: the three values the adapter names, and any other
  number the enumeration may come to hold.
\<close>

datatype annotation = NONE | UNDERLINE | HIGHLIGHT | UnknownAnnotation int

record segment =
  seg_value :: utf8_text
  seg_value_length :: "32 word"
  seg_annotation :: annotation

record preedit =
  pre_segment :: "segment list"
  pre_highlighted_position :: "32 word option"
  pre_cursor :: "32 word"

record candidate =
  cand_index :: "32 word"
  cand_value :: utf8_text
  cand_id :: "int option"
  cand_shortcut :: "utf8_text option option"

record candidates =
  cands_focused_index :: "32 word option"
  cands_size :: "32 word"
  cands_candidate :: "candidate list"

record Output =
  out_consumed :: bool
  out_result :: "utf8_text option"
  out_preedit :: "preedit option"
  out_candidates :: "candidates option"
  out_mode :: "composition_mode option"

subsection \<open>Configuration messages\<close>

text \<open>
  The descriptors of the protocol-buffer library, as far as \<open>UpdateConfig\<close> reads them:
  the C++ type and the label of a field and, for an enumeration field, the enumeration
  it is declared with (\<open>enum_type()\<close>); the enumeration an enum value belongs to
  (\<open>type()\<close>). The numbers of \<open>FieldDescriptor::CppType\<close> are the library's.
\<close>

datatype cpp_type =
    CPPTYPE_INT32
  | CPPTYPE_INT64
  | CPPTYPE_UINT32
  | CPPTYPE_UINT64
  | CPPTYPE_DOUBLE
  | CPPTYPE_FLOAT
  | CPPTYPE_BOOL
  | CPPTYPE_ENUM
  | CPPTYPE_STRING
  | CPPTYPE_MESSAGE

datatype field_label = LABEL_OPTIONAL | LABEL_REQUIRED | LABEL_REPEATED

record field_descriptor =
  field_name :: string
  field_cpp_type :: cpp_type
  field_label :: field_label
  field_enum_type :: "string option"

record enum_value_descriptor =
  enum_value_name :: string
  enum_value_number :: int
  enum_value_type :: string

datatype field_value =
    EnumValue enum_value_descriptor
  | UInt32Value "32 word"
  | BoolValue bool

text \<open>
  A \<open>config::Config\<close> message: the preedit method the adapter reads, and the fields
  set through reflection, latest first.
\<close>

record config =
  cfg_preedit_method :: "preedit_method option"
  cfg_fields :: "(field_descriptor \<times> field_value) list"

text \<open>
  A \<open>GValue\<close> of the host: a string (the pointer it holds may be \<open>NULL\<close>), a
  \<open>gint\<close>, a boolean, or a value of another type.
\<close>

datatype gvalue = G_STRING "string option" | G_INT "32 word" | G_BOOLEAN bool | G_OTHER

section \<open>What the host is shown\<close>

datatype ibus_attr_underline =
    IBUS_ATTR_UNDERLINE_NONE
  | IBUS_ATTR_UNDERLINE_SINGLE
  | IBUS_ATTR_UNDERLINE_DOUBLE
  | IBUS_ATTR_UNDERLINE_LOW
  | IBUS_ATTR_UNDERLINE_ERROR

datatype ibus_attr_kind =
    IBUS_ATTR_TYPE_UNDERLINE ibus_attr_underline
  | IBUS_ATTR_TYPE_FOREGROUND nat
  | IBUS_ATTR_TYPE_BACKGROUND nat

text \<open>
  An attribute is kept as the arguments of the call \<open>ibus_text_append_attribute\<close> that
  adds it: its kind and the two 32-bit indices.
\<close>

record ibus_attribute =
  attr_kind :: ibus_attr_kind
  start_index :: "32 word"
  end_index :: "32 word"

record ibus_text =
  text_string :: utf8_text
  text_attrs :: "ibus_attribute list"

text \<open>
  A lookup table as \<open>ibus_lookup_table_new\<close> and the two \<open>append\<close> calls fill it. Its
  orientation, which is set only for the versions of the host that have one, is left out.
\<close>

record ibus_lookup_table =
  table_page_size :: nat
  table_cursor_pos :: nat
  table_cursor_visible :: bool
  table_round :: bool
  table_candidates :: "ibus_text list"
  table_labels :: "ibus_text list"

datatype prop_state = PROP_STATE_UNCHECKED | PROP_STATE_CHECKED | PROP_STATE_INCONSISTENT

record MozcEngineProperty =
  prop_composition_mode :: composition_mode
  prop_key :: string
  prop_label :: string
  prop_icon :: string

record MozcEngineToolProperty =
  tool_mode :: string
  tool_label :: string

text \<open>
  An item of the radio menu: its key, its state, and the table entry attached to it
  under \<open>kGObjectDataKey\<close> (\<open>g_object_get_data\<close> may give \<open>NULL\<close>).
\<close>

record radio_item =
  item_key :: string
  item_state :: prop_state
  item_data :: "MozcEngineProperty option"

record tool_item =
  tool_item_key :: string
  tool_item_data :: MozcEngineToolProperty

text \<open>
  The calls on the host, with the \<open>IBusText\<close> or table they hand over; a property
  update carries the icon and the items of the radio menu it shows.
\<close>

datatype host_call =
    ibus_engine_commit_text ibus_text
  | ibus_engine_hide_preedit_text
  | ibus_engine_update_preedit_text ibus_text "32 word" bool
  | ibus_engine_hide_auxiliary_text
  | ibus_engine_hide_lookup_table
  | ibus_engine_update_lookup_table ibus_lookup_table bool
  | ibus_engine_update_auxiliary_text ibus_text bool
  | ibus_engine_update_property string "radio_item list"
  | ibus_engine_register_properties

section \<open>Collaborators and the record of their calls\<close>

text \<open>
  Every call made on the session client, the key translator and the host, and every
  diagnostic of the engine's methods, is appended to a trace, oldest first.
\<close>

datatype event =
    KeyTranslator_Translate nat nat "32 word" preedit_method bool
  | Session_SendKey key_event
  | Session_SendCommand session_command
  | Session_GetConfig
  | Session_SetConfig config
  | Session_SyncData
  | Session_EnsureConnection
  | Session_LaunchTool string string
  | Host host_call
  | LOG_ERROR string
  | LOG_WARNING string

record 's world =
  sess :: 's
  trace :: "event list"

text \<open>
  The collaborators are parameters: the session service with a state of its own
  (type \<open>'s\<close>), the key translator, \<open>ImeSwitchUtil\<close>, the property tables of
  \<open>mozc_engine_property\<close>, \<open>GetIconPath\<close>, the descriptor of \<open>config::Config\<close>, the
  release bit of the host's modifier mask, and the compile-time switch \<open>OS_CHROMEOS\<close>.
  Both lookups of the descriptor are those of the message: \<open>FindFieldByName\<close> among
  its fields, \<open>FindEnumValueByName\<close> among the values of every enumeration declared
  in it.
\<close>

record 's env =
  OS_CHROMEOS :: bool
  IBUS_RELEASE_MASK :: "32 word"
  layout_is_jp :: bool
  Translate :: "nat \<Rightarrow> nat \<Rightarrow> 32 word \<Rightarrow> preedit_method \<Rightarrow> bool \<Rightarrow> key_event option"
  IsTurnOnInDirectMode :: "key_event \<Rightarrow> bool"
  SendKey :: "'s \<Rightarrow> key_event \<Rightarrow> bool \<times> Output \<times> 's"
  SendCommand :: "'s \<Rightarrow> session_command \<Rightarrow> bool \<times> Output \<times> 's"
  GetConfig :: "'s \<Rightarrow> config option \<times> 's"
  SetConfig :: "'s \<Rightarrow> config \<Rightarrow> bool \<times> 's"
  SyncData_session :: "'s \<Rightarrow> 's"
  EnsureConnection :: "'s \<Rightarrow> bool \<times> 's"
  LaunchTool :: "'s \<Rightarrow> string \<Rightarrow> string \<Rightarrow> bool \<times> 's"
  kMozcEngineProperties :: "MozcEngineProperty list"
  kMozcEngineToolProperties :: "MozcEngineToolProperty list"
  kMozcEngineInitialCompositionMode :: composition_mode
  IsMozcToolAvailable :: bool
  GetIconPath :: "string \<Rightarrow> string"
  FindFieldByName :: "string \<Rightarrow> field_descriptor option"
  FindEnumValueByName :: "string \<Rightarrow> enum_value_descriptor option"

section \<open>The engine adapter\<close>

text \<open>
  The members of \<open>MozcEngine\<close>. \<open>session_is_null\<close> stands for
  \<open>session_.get() == NULL\<close>: the constructor allocates the session and nothing resets it.
  The methods are modelled as a release build runs them: \<open>VLOG\<close> lines and \<open>DCHECK\<close>s
  leave no trace, while the \<open>LOG(ERROR)\<close> lines of the engine are events with the text
  they print.
\<close>

record engine =
  last_sync_time :: "64 word"
  session_is_null :: bool
  prop_composition_mode_icon :: string
  prop_composition_mode_sub_props :: "radio_item list"
  prop_mozc_tool :: "tool_item list option"
  current_composition_mode :: composition_mode
  preedit_method_member :: preedit_method
  unique_candidate_ids :: "int list"

definition kBadCandidateId :: int where
  "kBadCandidateId = - 1"

definition kSyncDataInterval :: "64 word" where
  "kSyncDataInterval = 5 * 60"

definition emit :: "event \<Rightarrow> 's world \<Rightarrow> 's world" where
  "emit ev w = w\<lparr>trace := trace w @ [ev]\<rparr>"

subsection \<open>C strings and printed numbers\<close>

text \<open>
  \<open>c_str()\<close> hands a \<open>std::string\<close> over as a C string, which the receiver reads up
  to the first NUL.
\<close>

definition c_str :: "utf8_text \<Rightarrow> utf8_text" where
  "c_str data = takeWhile (\<lambda>c. c \<noteq> 0) data"

definition c_str_of_string :: "string \<Rightarrow> string" where
  "c_str_of_string data = takeWhile (\<lambda>c. c \<noteq> CHR 0x00) data"

definition ibus_text_new_from_string :: "utf8_text \<Rightarrow> ibus_text" where
  "ibus_text_new_from_string str = \<lparr>text_string = str, text_attrs = []\<rparr>"

text \<open>A number as \<open>%d\<close> and \<open><<\<close> print it: in decimal, with a sign when negative.\<close>

fun digits :: "nat \<Rightarrow> string" where
  "digits n =
     (if n < 10 then [''0123456789'' ! n]
      else digits (n div 10) @ [''0123456789'' ! (n mod 10)])"

declare digits.simps [simp del]

definition decimal :: "int \<Rightarrow> string" where
  "decimal i = (if i < 0 then CHR ''-'' # digits (nat (- i)) else digits (nat i))"

definition utf8_of :: "string \<Rightarrow> utf8_text" where
  "utf8_of str = map of_char str"

subsection \<open>Rendering composer\<close>

definition kBackgroundColor :: nat where
  "kBackgroundColor = 0xD1EAFF"

definition kForegroundColor :: nat where
  "kForegroundColor = 0x000000"

definition underline_of :: "annotation \<Rightarrow> ibus_attr_underline" where
  "underline_of a =
     (case a of
        NONE \<Rightarrow> IBUS_ATTR_UNDERLINE_NONE
      | UNDERLINE \<Rightarrow> IBUS_ATTR_UNDERLINE_SINGLE
      | HIGHLIGHT \<Rightarrow> IBUS_ATTR_UNDERLINE_DOUBLE
      | UnknownAnnotation _ \<Rightarrow> IBUS_ATTR_UNDERLINE_ERROR)"

text \<open>
  The second loop of \<open>ComposePreeditText\<close> does two things that do not touch each
  other: it appends attributes to the text, and its \<open>default\<close> branch writes a
  diagnostic for an annotation it does not know. \<open>start\<close> and \<open>end\<close> are C \<open>int\<close>s
  and \<open>value_length\<close> is a \<open>uint32\<close>: the sum is taken on 32 bits, and the value of
  the \<open>int\<close> is the signed reading (\<open>sint\<close>) of the word.
\<close>

fun append_attributes :: "32 word \<Rightarrow> 32 word \<Rightarrow> segment list \<Rightarrow> ibus_attribute list" where
  "append_attributes start end_pos [] = []"
| "append_attributes start end_pos (segment # rest) =
     (let attr = underline_of (seg_annotation segment);
          end_pos' = end_pos + seg_value_length segment
      in \<lparr>attr_kind = IBUS_ATTR_TYPE_UNDERLINE attr, start_index = start, end_index = end_pos'\<rparr> #
         (if seg_annotation segment = HIGHLIGHT
          then [\<lparr>attr_kind = IBUS_ATTR_TYPE_BACKGROUND kBackgroundColor,
                  start_index = start, end_index = end_pos'\<rparr>,
                \<lparr>attr_kind = IBUS_ATTR_TYPE_FOREGROUND kForegroundColor,
                  start_index = start, end_index = end_pos'\<rparr>]
          else []) @
         append_attributes end_pos' end_pos' rest)"

fun log_unknown_annotations :: "segment list \<Rightarrow> 's world \<Rightarrow> 's world" where
  "log_unknown_annotations [] w = w"
| "log_unknown_annotations (segment # rest) w =
     log_unknown_annotations rest
       (case seg_annotation segment of
          UnknownAnnotation n \<Rightarrow> emit (LOG_ERROR (''unknown annotation:'' @ decimal n)) w
        | _ \<Rightarrow> w)"

text \<open>
  The text is made from \<open>data.c_str()\<close>: it ends at the first NUL of the concatenated
  segment values, while the attributes are computed from the \<open>value_length\<close> fields.
\<close>

definition ComposePreeditText :: "preedit \<Rightarrow> 's world \<Rightarrow> ibus_text \<times> 's world" where
  "ComposePreeditText p w =
     (let data = concat (map seg_value (pre_segment p));
          str = ibus_text_new_from_string (c_str data)
      in (str\<lparr>text_attrs := append_attributes 0 0 (pre_segment p)\<rparr>,
          log_unknown_annotations (pre_segment p) w))"

text \<open>
  \<open>CursorPos\<close> returns an \<open>int\<close> made from a \<open>uint32\<close> field, which the caller hands to
  the host as a \<open>guint\<close>: the 32 bits of the field.
\<close>

definition CursorPos :: "Output \<Rightarrow> 32 word" where
  "CursorPos out =
     (case out_preedit out of
        None \<Rightarrow> 0
      | Some p \<Rightarrow>
          (case pre_highlighted_position p of
             Some h \<Rightarrow> h
           | None \<Rightarrow> pre_cursor p))"

definition UpdateResult :: "Output \<Rightarrow> 's world \<Rightarrow> 's world" where
  "UpdateResult out w =
     (case out_result out of
        None \<Rightarrow> w
      | Some v \<Rightarrow> emit (Host (ibus_engine_commit_text (ibus_text_new_from_string (c_str v)))) w)"

definition UpdatePreedit :: "Output \<Rightarrow> 's world \<Rightarrow> 's world" where
  "UpdatePreedit out w =
     (case out_preedit out of
        None \<Rightarrow> emit (Host ibus_engine_hide_preedit_text) w
      | Some p \<Rightarrow>
          (case ComposePreeditText p w of
             (str, w1) \<Rightarrow>
               emit (Host (ibus_engine_update_preedit_text str (CursorPos out) True)) w1))"

text \<open>
  \<open>ComposeAuxiliaryText\<close>: \<open>snprintf\<close> with \<open>"%d/%d"\<close> of \<open>focused_index() + 1\<close>,
  computed as a \<open>uint32\<close>, and of \<open>size()\<close>; \<open>%d\<close> prints the 32 bits as a signed
  number. The accessor \<open>focused_index()\<close> gives 0 for a field that is not set.
\<close>

definition focused_index :: "candidates \<Rightarrow> 32 word" where
  "focused_index cs =
     (case cands_focused_index cs of
        Some focused \<Rightarrow> focused
      | None \<Rightarrow> 0)"

definition ComposeAuxiliaryText :: "candidates \<Rightarrow> ibus_text" where
  "ComposeAuxiliaryText cs =
     ibus_text_new_from_string
       (utf8_of (decimal (sint (focused_index cs + 1)) @ ''/'' @ decimal (sint (cands_size cs))))"

text \<open>The scan for the focused row: the last candidate whose index field matches wins.\<close>

fun find_cursor_pos :: "32 word \<Rightarrow> nat \<Rightarrow> nat \<Rightarrow> candidate list \<Rightarrow> nat" where
  "find_cursor_pos focused i cursor_pos [] = cursor_pos"
| "find_cursor_pos focused i cursor_pos (c # cs) =
     find_cursor_pos focused (Suc i) (if focused = cand_index c then i else cursor_pos) cs"

definition candidate_label :: "candidate \<Rightarrow> ibus_text" where
  "candidate_label c =
     ibus_text_new_from_string
       (case cand_shortcut c of
          Some (Some shortcut) \<Rightarrow> c_str shortcut
        | _ \<Rightarrow> [])"

text \<open>The loop that fills \<open>unique_candidate_ids_\<close> with \<open>push_back\<close>.\<close>

fun push_candidate_ids :: "int list \<Rightarrow> candidate list \<Rightarrow> int list" where
  "push_candidate_ids ids [] = ids"
| "push_candidate_ids ids (c # cs) =
     push_candidate_ids
       (case cand_id c of
          Some i \<Rightarrow> ids @ [i]
        | None \<Rightarrow> ids @ [kBadCandidateId])
       cs"

definition UpdateCandidates :: "Output \<Rightarrow> engine \<Rightarrow> 's world \<Rightarrow> engine \<times> 's world" where
  "UpdateCandidates out e w =
     (let e0 = e\<lparr>unique_candidate_ids := []\<rparr> in
      case out_candidates out of
        None \<Rightarrow>
          (e0, emit (Host ibus_engine_hide_lookup_table) (emit (Host ibus_engine_hide_auxiliary_text) w))
      | Some cs \<Rightarrow>
          (let cursor_visible = (cands_focused_index cs \<noteq> None);
               cursor_pos =
                 (case cands_focused_index cs of
                    None \<Rightarrow> 0
                  | Some focused \<Rightarrow> find_cursor_pos focused 0 0 (cands_candidate cs));
               table =
                 \<lparr>table_page_size = 9, table_cursor_pos = cursor_pos,
                  table_cursor_visible = cursor_visible, table_round = True,
                  table_candidates =
                    map (\<lambda>c. ibus_text_new_from_string (c_str (cand_value c))) (cands_candidate cs),
                  table_labels = map candidate_label (cands_candidate cs)\<rparr>;
               w1 = emit (Host (ibus_engine_update_lookup_table table True)) w;
               w2 =
                 (case cands_focused_index cs of
                    Some focused \<Rightarrow>
                      emit (Host (ibus_engine_update_auxiliary_text (ComposeAuxiliaryText cs) True)) w1
                  | None \<Rightarrow> emit (Host ibus_engine_hide_auxiliary_text) w1)
           in (e0\<lparr>unique_candidate_ids := push_candidate_ids [] (cands_candidate cs)\<rparr>, w2)))"

subsection \<open>Applying an Output: the nest of callbacks\<close>

text \<open>
  \<open>UpdateAll\<close> calls \<open>UpdateCompositionMode\<close>, which calls \<open>PropertyActivate\<close>, which
  calls \<open>SetCompositionMode\<close>, which for \<open>DIRECT\<close> calls \<open>UpdateAll\<close> again on the
  Output of its \<open>SUBMIT\<close>. How deep this nests is up to the session's answers, so the
  functions carry a bound \<open>depth\<close> on the nesting of \<open>UpdateAll\<close>; a call that would nest
  deeper has no engine to return (\<open>None\<close>) but keeps the world it reached. The bodies are
  written once, with the inner \<open>UpdateAll\<close> as a parameter.
\<close>

type_synonym 's step = "engine \<Rightarrow> 's world \<Rightarrow> engine option \<times> 's world"

definition and_then :: "engine option \<times> 's world \<Rightarrow> 's step \<Rightarrow> engine option \<times> 's world" where
  "and_then r f =
     (case r of
        (None, w) \<Rightarrow> (None, w)
      | (Some e, w) \<Rightarrow> f e w)"

definition call_SendCommand :: "'s env \<Rightarrow> session_command \<Rightarrow> 's world \<Rightarrow> (bool \<times> Output) \<times> 's world" where
  "call_SendCommand env command w =
     (case SendCommand env (sess w) command of
        (ok, out, s) \<Rightarrow> ((ok, out), emit (Session_SendCommand command) (w\<lparr>sess := s\<rparr>)))"

definition SetCompositionMode_body ::
  "(Output \<Rightarrow> 's step) \<Rightarrow> 's env \<Rightarrow> composition_mode \<Rightarrow> 's step" where
  "SetCompositionMode_body UpdateAll_inner env composition_mode e w =
     (if composition_mode = DIRECT then
        (case call_SendCommand env SUBMIT w of
           ((ok, out), w1) \<Rightarrow>
             and_then (UpdateAll_inner out e w1)
               (\<lambda>e2 w2. (Some (e2\<lparr>current_composition_mode := composition_mode\<rparr>), w2)))
      else
        (case call_SendCommand env (SWITCH_INPUT_MODE composition_mode) w of
           ((ok, out), w1) \<Rightarrow> (Some (e\<lparr>current_composition_mode := composition_mode\<rparr>), w1)))"

definition set_item_state :: "nat \<Rightarrow> prop_state \<Rightarrow> engine \<Rightarrow> engine" where
  "set_item_state i st e =
     e\<lparr>prop_composition_mode_sub_props :=
         (prop_composition_mode_sub_props e)
           [i := (prop_composition_mode_sub_props e ! i)\<lparr>item_state := st\<rparr>]\<rparr>"

text \<open>
  The loop of \<open>PropertyActivate\<close> over the radio items, by index: \<open>ibus_prop_list_get\<close>
  gives \<open>NULL\<close> past the end of the list, which ends the loop.
\<close>

fun radio_loop ::
  "(composition_mode \<Rightarrow> 's step) \<Rightarrow> 's env \<Rightarrow> string \<Rightarrow> nat list \<Rightarrow> 's step" where
  "radio_loop set_mode env property_name [] e w = (Some e, w)"
| "radio_loop set_mode env property_name (i # rest) e w =
     (if i \<ge> length (prop_composition_mode_sub_props e) then (Some e, w)
      else
        let prop = prop_composition_mode_sub_props e ! i in
        if property_name = item_key prop then
          (case item_data prop of
             Some entry \<Rightarrow>
               and_then (set_mode (prop_composition_mode entry) e w)
                 (\<lambda>e1 w1.
                    radio_loop set_mode env property_name rest
                      (set_item_state i PROP_STATE_CHECKED
                         (e1\<lparr>prop_composition_mode_icon :=
                               c_str_of_string (GetIconPath env (prop_icon entry))\<rparr>))
                      w1)
           | None \<Rightarrow>
               radio_loop set_mode env property_name rest (set_item_state i PROP_STATE_CHECKED e) w)
        else
          radio_loop set_mode env property_name rest (set_item_state i PROP_STATE_UNCHECKED e) w)"

text \<open>The first loop of \<open>PropertyActivate\<close>: compiled out under \<open>OS_CHROMEOS\<close>.\<close>

definition find_tool_item :: "'s env \<Rightarrow> string \<Rightarrow> engine \<Rightarrow> tool_item option" where
  "find_tool_item env property_name e =
     (if OS_CHROMEOS env then None
      else
        (case prop_mozc_tool e of
           None \<Rightarrow> None
         | Some sub_props \<Rightarrow> find (\<lambda>prop. property_name = tool_item_key prop) sub_props))"

definition PropertyActivate_body ::
  "(Output \<Rightarrow> 's step) \<Rightarrow> 's env \<Rightarrow> string \<Rightarrow> prop_state \<Rightarrow> 's step" where
  "PropertyActivate_body UpdateAll_inner env property_name property_state e w =
     (case find_tool_item env property_name e of
        Some prop \<Rightarrow>
          (let entry = tool_item_data prop in
           case LaunchTool env (sess w) (tool_mode entry) [] of
             (ok, s) \<Rightarrow>
               (let w1 = emit (Session_LaunchTool (tool_mode entry) []) (w\<lparr>sess := s\<rparr>)
                in (Some e, if ok then w1 else emit (LOG_ERROR (''cannot launch: '' @ tool_mode entry)) w1)))
      | None \<Rightarrow>
          if property_state \<noteq> PROP_STATE_CHECKED then (Some e, w)
          else
            and_then
              (radio_loop (SetCompositionMode_body UpdateAll_inner env) env property_name
                 [0..<length (prop_composition_mode_sub_props e)] e w)
              (\<lambda>e1 w1.
                 (Some e1,
                  emit (Host (ibus_engine_update_property (prop_composition_mode_icon e1)
                               (prop_composition_mode_sub_props e1))) w1)))"

fun activate_loop ::
  "(string \<Rightarrow> prop_state \<Rightarrow> 's step) \<Rightarrow> composition_mode \<Rightarrow> MozcEngineProperty list \<Rightarrow> 's step" where
  "activate_loop activate new_composition_mode [] e w = (Some e, w)"
| "activate_loop activate new_composition_mode (entry # rest) e w =
     (if prop_composition_mode entry = new_composition_mode then
        and_then (activate (prop_key entry) PROP_STATE_CHECKED e w)
          (activate_loop activate new_composition_mode rest)
      else activate_loop activate new_composition_mode rest e w)"

definition UpdateCompositionMode_body :: "(Output \<Rightarrow> 's step) \<Rightarrow> 's env \<Rightarrow> Output \<Rightarrow> 's step" where
  "UpdateCompositionMode_body UpdateAll_inner env out e w =
     (case out_mode out of
        None \<Rightarrow> (Some e, w)
      | Some new_composition_mode \<Rightarrow>
          if current_composition_mode e = new_composition_mode then (Some e, w)
          else
            activate_loop (PropertyActivate_body UpdateAll_inner env) new_composition_mode
              (kMozcEngineProperties env) e w)"

definition UpdateAll_body :: "(Output \<Rightarrow> 's step) \<Rightarrow> 's env \<Rightarrow> Output \<Rightarrow> 's step" where
  "UpdateAll_body UpdateAll_inner env out e w =
     (let w1 = UpdateResult out w;
          w2 = UpdatePreedit out w1
      in case UpdateCandidates out e w2 of
           (e3, w3) \<Rightarrow> UpdateCompositionMode_body UpdateAll_inner env out e3 w3)"

primrec UpdateAll :: "nat \<Rightarrow> 's env \<Rightarrow> Output \<Rightarrow> 's step" where
  "UpdateAll 0 env = (\<lambda>out e w. (None, w))"
| "UpdateAll (Suc depth) env = UpdateAll_body (UpdateAll depth env) env"

definition UpdateCompositionMode :: "nat \<Rightarrow> 's env \<Rightarrow> Output \<Rightarrow> 's step" where
  "UpdateCompositionMode depth env = UpdateCompositionMode_body (UpdateAll depth env) env"

definition PropertyActivate :: "nat \<Rightarrow> 's env \<Rightarrow> string \<Rightarrow> prop_state \<Rightarrow> 's step" where
  "PropertyActivate depth env = PropertyActivate_body (UpdateAll depth env) env"

definition SetCompositionMode :: "nat \<Rightarrow> 's env \<Rightarrow> composition_mode \<Rightarrow> 's step" where
  "SetCompositionMode depth env = SetCompositionMode_body (UpdateAll depth env) env"

subsection \<open>The host's callbacks\<close>

definition RevertSession :: "nat \<Rightarrow> 's env \<Rightarrow> 's step" where
  "RevertSession depth env e w =
     (case call_SendCommand env REVERT w of
        ((ok, out), w1) \<Rightarrow>
          if \<not> ok then (Some e, emit (LOG_ERROR ''RevertSession() failed'') w1)
          else UpdateAll depth env out e w1)"

definition CandidateClicked :: "nat \<Rightarrow> 's env \<Rightarrow> nat \<Rightarrow> nat \<Rightarrow> nat \<Rightarrow> 's step" where
  "CandidateClicked depth env index button state e w =
     (if index \<ge> length (unique_candidate_ids e) then (Some e, w)
      else
        let id = unique_candidate_ids e ! index in
        if id = kBadCandidateId then (Some e, w)
        else
          (case call_SendCommand env (SELECT_CANDIDATE id) w of
             ((ok, out), w1) \<Rightarrow> UpdateAll depth env out e w1))"

definition UpdatePreeditMethod :: "'s env \<Rightarrow> engine \<Rightarrow> 's world \<Rightarrow> engine \<times> 's world" where
  "UpdatePreeditMethod env e w =
     (case GetConfig env (sess w) of
        (r, s) \<Rightarrow>
          (let w1 = emit Session_GetConfig (w\<lparr>sess := s\<rparr>) in
           case r of
             None \<Rightarrow> (e, emit (LOG_ERROR ''GetConfig failed'') w1)
           | Some config \<Rightarrow>
               (e\<lparr>preedit_method_member :=
                    (case cfg_preedit_method config of
                       Some m \<Rightarrow> m
                     | None \<Rightarrow> ROMAN)\<rparr>,
                w1)))"

definition Enable :: "nat \<Rightarrow> 's env \<Rightarrow> 's step" where
  "Enable depth env e w =
     (case EnsureConnection env (sess w) of
        (ok, s) \<Rightarrow>
          (case UpdatePreeditMethod env e (emit Session_EnsureConnection (w\<lparr>sess := s\<rparr>)) of
             (e1, w1) \<Rightarrow> RevertSession depth env e1 w1))"

definition Disable :: "nat \<Rightarrow> 's env \<Rightarrow> 's step" where
  "Disable depth env e w = RevertSession depth env e w"

definition Reset :: "nat \<Rightarrow> 's env \<Rightarrow> 's step" where
  "Reset depth env e w = RevertSession depth env e w"

definition FocusIn :: "'s env \<Rightarrow> engine \<Rightarrow> 's world \<Rightarrow> engine \<times> 's world" where
  "FocusIn env e w = (e, emit (Host ibus_engine_register_properties) w)"

text \<open>
  The result of \<open>ProcessKeyEvent\<close> is the \<open>gboolean\<close> it returns (consumed or not) with
  the engine it leaves.
\<close>

definition ProcessKeyEvent ::
  "nat \<Rightarrow> 's env \<Rightarrow> nat \<Rightarrow> nat \<Rightarrow> 32 word \<Rightarrow> engine \<Rightarrow> 's world \<Rightarrow> (bool \<times> engine) option \<times> 's world" where
  "ProcessKeyEvent depth env keyval keycode modifiers e w =
     (if modifiers AND IBUS_RELEASE_MASK env \<noteq> 0 then (Some (False, e), w)
      else
        (case (if OS_CHROMEOS env then UpdatePreeditMethod env e w else (e, w)) of
           (e1, w1) \<Rightarrow>
             (let w2 = emit (KeyTranslator_Translate keyval keycode modifiers
                               (preedit_method_member e1) (layout_is_jp env)) w1
              in case Translate env keyval keycode modifiers (preedit_method_member e1) (layout_is_jp env) of
                   None \<Rightarrow> (Some (False, e1), emit (LOG_ERROR ''Translate failed'') w2)
                 | Some key \<Rightarrow>
                     if current_composition_mode e1 = DIRECT \<and> \<not> IsTurnOnInDirectMode env key
                     then (Some (False, e1), w2)
                     else
                       (case SendKey env (sess w2) key of
                          (ok, out, s) \<Rightarrow>
                            (let w3 = emit (Session_SendKey key) (w2\<lparr>sess := s\<rparr>) in
                             if \<not> ok then (Some (False, e1), emit (LOG_ERROR ''SendKey failed'') w3)
                             else
                               (case UpdateAll depth env out e1 w3 of
                                  (None, w4) \<Rightarrow> (None, w4)
                                | (Some e4, w4) \<Rightarrow> (Some (out_consumed out, e4), w4)))))))"

subsection \<open>Debounced persistence\<close>

text \<open>
  \<open>MozcEngine::SyncData(force)\<close>; \<open>current_time\<close> is what \<open>GetTime()\<close> returns at the call.
\<close>

definition SyncData :: "'s env \<Rightarrow> 64 word \<Rightarrow> bool \<Rightarrow> engine \<Rightarrow> 's world \<Rightarrow> engine \<times> 's world" where
  "SyncData env current_time force e w =
     (if session_is_null e then (e, w)
      else if force \<or>
              (current_time \<ge> last_sync_time e \<and>
               current_time - last_sync_time e \<ge> kSyncDataInterval)
      then (e\<lparr>last_sync_time := current_time\<rparr>,
            emit Session_SyncData (w\<lparr>sess := SyncData_session env (sess w)\<rparr>))
      else (e, w))"

definition FocusOut :: "nat \<Rightarrow> 's env \<Rightarrow> 64 word \<Rightarrow> 's step" where
  "FocusOut depth env current_time e w =
     and_then (RevertSession depth env e w)
       (\<lambda>e1 w1. case SyncData env current_time False e1 w1 of (e2, w2) \<Rightarrow> (Some e2, w2))"

text \<open>The destructor: a forced sync, then the property objects are released.\<close>

definition MozcEngine_destructor :: "'s env \<Rightarrow> 64 word \<Rightarrow> engine \<Rightarrow> 's world \<Rightarrow> engine \<times> 's world" where
  "MozcEngine_destructor env current_time e w = SyncData env current_time True e w"

text \<open>The constructor builds the radio menu and, outside Chrome OS, the tool menu.\<close>

definition initial_icon :: "'s env \<Rightarrow> string" where
  "initial_icon env =
     c_str_of_string
       (fold (\<lambda>entry icon_path_for_panel.
                if prop_composition_mode entry = kMozcEngineInitialCompositionMode env
                then GetIconPath env (prop_icon entry) else icon_path_for_panel)
          (kMozcEngineProperties env) [])"

definition MozcEngine_constructor :: "'s env \<Rightarrow> 64 word \<Rightarrow> engine" where
  "MozcEngine_constructor env current_time =
     \<lparr>last_sync_time = current_time,
      session_is_null = False,
      prop_composition_mode_icon = initial_icon env,
      prop_composition_mode_sub_props =
        map (\<lambda>entry.
               \<lparr>item_key = prop_key entry,
                item_state =
                  (if prop_composition_mode entry = kMozcEngineInitialCompositionMode env
                   then PROP_STATE_CHECKED else PROP_STATE_UNCHECKED),
                item_data = Some entry\<rparr>)
          (kMozcEngineProperties env),
      prop_mozc_tool =
        (if \<not> OS_CHROMEOS env \<and> IsMozcToolAvailable env
         then Some (map (\<lambda>entry. \<lparr>tool_item_key = tool_mode entry, tool_item_data = entry\<rparr>)
                      (kMozcEngineToolProperties env))
         else None),
      current_composition_mode = kMozcEngineInitialCompositionMode env,
      preedit_method_member = ROMAN,
      unique_candidate_ids = []\<rparr>"

subsection \<open>Configuration propagation\<close>

definition kMozcSectionName :: string where
  "kMozcSectionName = ''engine/Mozc''"

definition default_config :: config where
  "default_config = \<lparr>cfg_preedit_method = None, cfg_fields = []\<rparr>"

text \<open>The tail of \<open>UpdateConfig\<close>: \<open>SetConfig\<close>, then \<open>SyncData\<close>, on the session.\<close>

definition push_config :: "'s env \<Rightarrow> config \<Rightarrow> 's world \<Rightarrow> 's world" where
  "push_config env mozc_config w =
     (case SetConfig env (sess w) mozc_config of
        (ok, s) \<Rightarrow>
          emit Session_SyncData
            (emit (Session_SetConfig mozc_config) (w\<lparr>sess := s\<rparr>)
               \<lparr>sess := SyncData_session env s\<rparr>))"

definition set_field :: "field_descriptor \<Rightarrow> field_value \<Rightarrow> config \<Rightarrow> config" where
  "set_field field v c = c\<lparr>cfg_fields := (field, v) # cfg_fields c\<rparr>"

text \<open>
  The setters of \<open>google::protobuf::Reflection\<close> check how they are used and end the
  process with a fatal diagnostic otherwise: the field must be singular and of the
  setter's C++ type, and \<open>SetEnum\<close> takes only a value of the enumeration the field is
  declared with. A \<open>NULL\<close> string value is fatal as well (a failed \<open>DCHECK\<close>, or a
  \<open>std::string\<close> made from \<open>NULL\<close>).
\<close>

datatype fatal = NullStringValue | RepeatedField | WrongFieldType | EnumTypeMismatch

definition cpp_type_number :: "cpp_type \<Rightarrow> int" where
  "cpp_type_number t =
     (case t of
        CPPTYPE_INT32 \<Rightarrow> 1
      | CPPTYPE_INT64 \<Rightarrow> 2
      | CPPTYPE_UINT32 \<Rightarrow> 3
      | CPPTYPE_UINT64 \<Rightarrow> 4
      | CPPTYPE_DOUBLE \<Rightarrow> 5
      | CPPTYPE_FLOAT \<Rightarrow> 6
      | CPPTYPE_BOOL \<Rightarrow> 7
      | CPPTYPE_ENUM \<Rightarrow> 8
      | CPPTYPE_STRING \<Rightarrow> 9
      | CPPTYPE_MESSAGE \<Rightarrow> 10)"

definition usage_check :: "field_descriptor \<Rightarrow> cpp_type \<Rightarrow> fatal option" where
  "usage_check field t =
     (if field_label field = LABEL_REPEATED
      then Some RepeatedField
      else if field_cpp_type field \<noteq> t
      then Some WrongFieldType
      else None)"

definition SetEnum :: "field_descriptor \<Rightarrow> enum_value_descriptor \<Rightarrow> config \<Rightarrow> fatal + config" where
  "SetEnum field v message =
     (case usage_check field CPPTYPE_ENUM of
        Some f \<Rightarrow> Inl f
      | None \<Rightarrow>
          if field_enum_type field \<noteq> Some (enum_value_type v)
          then Inl EnumTypeMismatch
          else Inr (set_field field (EnumValue v) message))"

definition SetUInt32 :: "field_descriptor \<Rightarrow> 32 word \<Rightarrow> config \<Rightarrow> fatal + config" where
  "SetUInt32 field v message =
     (case usage_check field CPPTYPE_UINT32 of
        Some f \<Rightarrow> Inl f
      | None \<Rightarrow> Inr (set_field field (UInt32Value v) message))"

definition SetBool :: "field_descriptor \<Rightarrow> bool \<Rightarrow> config \<Rightarrow> fatal + config" where
  "SetBool field v message =
     (case usage_check field CPPTYPE_BOOL of
        Some f \<Rightarrow> Inl f
      | None \<Rightarrow> Inr (set_field field (BoolValue v) message))"

text \<open>
  \<open>MozcEngine::UpdateConfig\<close>; the whole body stands under \<open>#ifdef OS_CHROMEOS\<close>. The
  three arguments are pointers, \<open>None\<close> for \<open>NULL\<close>. The result is the world the call
  leaves, or the fatal error that ends the process. The name of an enum value is looked
  up in the descriptor of the message, not in the enumeration of the field.
\<close>

definition UpdateConfig ::
  "'s env \<Rightarrow> string option \<Rightarrow> string option \<Rightarrow> gvalue option \<Rightarrow> 's world \<Rightarrow> fatal + 's world" where
  "UpdateConfig env section_arg name_arg gvalue_arg w =
     (if \<not> OS_CHROMEOS env then Inr w
      else
        (case (section_arg, name_arg, gvalue_arg) of
           (Some section_name, Some name, Some gv) \<Rightarrow>
             if section_name \<noteq> kMozcSectionName then Inr w
             else
               (case FindFieldByName env name of
                  None \<Rightarrow> Inr (emit (LOG_ERROR (''Unknown config name: '' @ name)) w)
                | Some field_to_update \<Rightarrow>
                    (case field_cpp_type field_to_update of
                       CPPTYPE_ENUM \<Rightarrow>
                         (case gv of
                            G_STRING None \<Rightarrow> Inl NullStringValue
                          | G_STRING (Some string_value) \<Rightarrow>
                              (case FindEnumValueByName env string_value of
                                 None \<Rightarrow>
                                   Inr (emit (LOG_ERROR (''Bad GValue value for '' @ name @ '': '' @
                                                         string_value)) w)
                               | Some enum_value \<Rightarrow>
                                   (case SetEnum field_to_update enum_value default_config of
                                      Inl f \<Rightarrow> Inl f
                                    | Inr mozc_config \<Rightarrow> Inr (push_config env mozc_config w)))
                          | _ \<Rightarrow> Inr (emit (LOG_ERROR (''Bad GValue type for '' @ name)) w))
                     | CPPTYPE_UINT32 \<Rightarrow>
                         (case gv of
                            G_INT int_value \<Rightarrow>
                              (case SetUInt32 field_to_update int_value default_config of
                                 Inl f \<Rightarrow> Inl f
                               | Inr mozc_config \<Rightarrow> Inr (push_config env mozc_config w))
                          | _ \<Rightarrow> Inr (emit (LOG_ERROR (''Bad GValue type for '' @ name)) w))
                     | CPPTYPE_BOOL \<Rightarrow>
                         (case gv of
                            G_BOOLEAN boolean_value \<Rightarrow>
                              (case SetBool field_to_update boolean_value default_config of
                                 Inl f \<Rightarrow> Inl f
                               | Inr mozc_config \<Rightarrow> Inr (push_config env mozc_config w))
                          | _ \<Rightarrow> Inr (emit (LOG_ERROR (''Bad GValue type for '' @ name)) w))
                     | _ \<Rightarrow>
                         Inr (emit (LOG_ERROR (''Unknown or unsupported type: '' @ name @ '': '' @
                                               decimal (cpp_type_number (field_cpp_type field_to_update))))
                                w)))
         | _ \<Rightarrow> Inr w))"

section \<open>The quality harness\<close>






definition call_SendKey :: "'s env \<Rightarrow> key_event \<Rightarrow> 's world \<Rightarrow> Output \<times> 's world" where
  "call_SendKey env key w =
     (case SendKey env (sess w) key of
        (ok, out, s) \<Rightarrow> (out, emit (Session_SendKey key) (w\<lparr>sess := s\<rparr>)))"

fun send_keys :: "'s env \<Rightarrow> key_event list \<Rightarrow> Output \<Rightarrow> 's world \<Rightarrow> Output \<times> 's world" where
  "send_keys env [] out w = (out, w)"
| "send_keys env (key # keys) out w =
     (case call_SendKey env key w of
        (out', w') \<Rightarrow> send_keys env keys out' w')"


section \<open>Vocabulary of the properties\<close>

text \<open>\<open>extends_by P w w'\<close>: the trace of \<open>w'\<close> is the trace of \<open>w\<close> followed by events that satisfy \<open>P\<close>.\<close>

definition extends_by :: "(event \<Rightarrow> bool) \<Rightarrow> 's world \<Rightarrow> 's world \<Rightarrow> bool" where
  "extends_by P w w' = (\<exists>evs. trace w' = trace w @ evs \<and> list_all P evs)"

definition is_session_call :: "event \<Rightarrow> bool" where
  "is_session_call ev =
     (case ev of
        Session_SendKey _ \<Rightarrow> True
      | Session_SendCommand _ \<Rightarrow> True
      | Session_GetConfig \<Rightarrow> True
      | Session_SetConfig _ \<Rightarrow> True
      | Session_SyncData \<Rightarrow> True
      | Session_EnsureConnection \<Rightarrow> True
      | Session_LaunchTool _ _ \<Rightarrow> True
      | _ \<Rightarrow> False)"

definition selects_bad_candidate :: "event \<Rightarrow> bool" where
  "selects_bad_candidate ev = (ev = Session_SendCommand (SELECT_CANDIDATE kBadCandidateId))"

text \<open>The events that applying an Output can append, however deep it nests.\<close>

definition update_event :: "event \<Rightarrow> bool" where
  "update_event ev =
     (case ev of
        Session_SendCommand SUBMIT \<Rightarrow> True
      | Session_SendCommand (SWITCH_INPUT_MODE _) \<Rightarrow> True
      | Session_LaunchTool _ _ \<Rightarrow> True
      | Host _ \<Rightarrow> True
      | LOG_ERROR _ \<Rightarrow> True
      | _ \<Rightarrow> False)"

definition sync_calls :: "event list \<Rightarrow> nat" where
  "sync_calls evs = length (filter (\<lambda>ev. ev = Session_SyncData) evs)"

definition submit_calls :: "event list \<Rightarrow> nat" where
  "submit_calls evs = length (filter (\<lambda>ev. ev = Session_SendCommand SUBMIT) evs)"

definition is_underline :: "ibus_attribute \<Rightarrow> bool" where
  "is_underline a =
     (case attr_kind a of
        IBUS_ATTR_TYPE_UNDERLINE _ \<Rightarrow> True
      | _ \<Rightarrow> False)"

text \<open>The range of an attribute: the values of the \<open>int\<close>s \<open>start\<close> and \<open>end\<close>.\<close>

definition span :: "ibus_attribute \<Rightarrow> int \<times> int" where
  "span a = (sint (start_index a), sint (end_index a))"

text \<open>\<open>tiles a spans b\<close>: the half-open ranges follow one another from \<open>a\<close> to \<open>b\<close>.\<close>

fun tiles :: "int \<Rightarrow> (int \<times> int) list \<Rightarrow> int \<Rightarrow> bool" where
  "tiles a [] b = (a = b)"
| "tiles a ((s, t) # rest) b = (s = a \<and> s \<le> t \<and> tiles t rest b)"

definition consistent_lengths :: "segment list \<Rightarrow> bool" where
  "consistent_lengths segs = list_all (\<lambda>s. unat (seg_value_length s) = length (seg_value s)) segs"

text \<open>A text that holds no character NUL.\<close>

definition NUL_free :: "utf8_text \<Rightarrow> bool" where
  "NUL_free str = list_all (\<lambda>c. c \<noteq> 0) str"




text \<open>The members of the engine that \<open>SyncData\<close> reads.\<close>

definition sync_fields :: "engine \<Rightarrow> 64 word \<times> bool" where
  "sync_fields e = (last_sync_time e, session_is_null e)"

definition uncheck :: "radio_item \<Rightarrow> radio_item" where
  "uncheck item = item\<lparr>item_state := PROP_STATE_UNCHECKED\<rparr>"

text \<open>
  \<open>unaffected f\<close>: what \<open>f\<close> reads of the engine is none of the four members that
  applying an Output writes (item states, the menu icon, the mode, the candidate ids).
\<close>

definition unaffected :: "(engine \<Rightarrow> 'a) \<Rightarrow> bool" where
  "unaffected f =
     (\<forall>e. (\<forall>i st. f (set_item_state i st e) = f e) \<and>
          (\<forall>icon. f (e\<lparr>prop_composition_mode_icon := icon\<rparr>) = f e) \<and>
          (\<forall>m. f (e\<lparr>current_composition_mode := m\<rparr>) = f e) \<and>
          (\<forall>ids. f (e\<lparr>unique_candidate_ids := ids\<rparr>) = f e))"

text \<open>The key and the table entry of each radio item, which no method changes.\<close>

definition item_identities :: "engine \<Rightarrow> (string \<times> MozcEngineProperty option) list" where
  "item_identities e = map (\<lambda>item. (item_key item, item_data item)) (prop_composition_mode_sub_props e)"

text \<open>
  \<open>no_direct_item name e\<close>: no radio item with the key \<open>name\<close> carries an entry for
  \<open>DIRECT\<close>. \<open>nest_free env m e\<close>: activating the table's entries for the mode \<open>m\<close>
  reaches no such item, so that an Output with the mode \<open>m\<close> is applied without a
  further \<open>SUBMIT\<close>.
\<close>

definition no_direct_item :: "string \<Rightarrow> engine \<Rightarrow> bool" where
  "no_direct_item name e =
     list_all (\<lambda>(key, data). key \<noteq> name \<or>
                 (case data of
                    None \<Rightarrow> True
                  | Some entry \<Rightarrow> prop_composition_mode entry \<noteq> DIRECT))
       (item_identities e)"

definition nest_free :: "'s env \<Rightarrow> composition_mode \<Rightarrow> engine \<Rightarrow> bool" where
  "nest_free env m e =
     list_all (\<lambda>entry. prop_composition_mode entry \<noteq> m \<or> no_direct_item (prop_key entry) e)
       (kMozcEngineProperties env)"

section \<open>An example environment\<close>

text \<open>
  A small session that counts its calls, a two-entry radio menu and one tool, on which
  the theorems below are instantiated.
\<close>

definition example_preedit :: preedit where
  "example_preedit =
     \<lparr>pre_segment =
        [\<lparr>seg_value = [12431, 12383], seg_value_length = 2, seg_annotation = HIGHLIGHT\<rparr>,
         \<lparr>seg_value = [12375], seg_value_length = 1, seg_annotation = UNDERLINE\<rparr>],
      pre_highlighted_position = Some 0,
      pre_cursor = 3\<rparr>"

text \<open>A preedit of one segment whose three characters are \<open>a\<close>, NUL and \<open>b\<close>.\<close>

definition NUL_preedit :: preedit where
  "NUL_preedit =
     \<lparr>pre_segment = [\<lparr>seg_value = [97, 0, 98], seg_value_length = 3, seg_annotation = UNDERLINE\<rparr>],
      pre_highlighted_position = None,
      pre_cursor = 3\<rparr>"

definition example_candidates :: candidates where
  "example_candidates =
     \<lparr>cands_focused_index = Some 0,
      cands_size = 2,
      cands_candidate =
        [\<lparr>cand_index = 0, cand_value = [31169], cand_id = Some 7, cand_shortcut = None\<rparr>,
         \<lparr>cand_index = 1, cand_value = [12431, 12383], cand_id = None, cand_shortcut = Some (Some [49])\<rparr>]\<rparr>"

definition empty_output :: Output where
  "empty_output =
     \<lparr>out_consumed = False, out_result = None, out_preedit = None,
      out_candidates = None, out_mode = None\<rparr>"

definition example_output :: Output where
  "example_output =
     \<lparr>out_consumed = True, out_result = Some [31169], out_preedit = Some example_preedit,
      out_candidates = Some example_candidates, out_mode = None\<rparr>"

definition example_env :: "nat env" where
  "example_env =
     \<lparr>OS_CHROMEOS = False,
      IBUS_RELEASE_MASK = 0x40000000,
      layout_is_jp = True,
      Translate = (\<lambda>keyval keycode modifiers method jp.
                     if keyval < 128 then Some (KeyCode keyval)
                     else if keyval = 0xFF23 then Some (SpecialKey ON)
                     else None),
      IsTurnOnInDirectMode = (\<lambda>key. key = SpecialKey ON),
      SendKey = (\<lambda>s key. (True, example_output, Suc s)),
      SendCommand = (\<lambda>s command.
                       (True,
                        (case command of
                           SUBMIT \<Rightarrow> empty_output\<lparr>out_result := Some [12431]\<rparr>
                         | _ \<Rightarrow> empty_output),
                        Suc s)),
      GetConfig = (\<lambda>s. (Some default_config, Suc s)),
      SetConfig = (\<lambda>s c. (True, Suc s)),
      SyncData_session = Suc,
      EnsureConnection = (\<lambda>s. (True, s)),
      LaunchTool = (\<lambda>s tool arg. (True, Suc s)),
      kMozcEngineProperties =
        [\<lparr>prop_composition_mode = DIRECT, prop_key = ''Direct'',
          prop_label = ''Direct input'', prop_icon = ''direct.png''\<rparr>,
         \<lparr>prop_composition_mode = InputMode 0, prop_key = ''Hiragana'',
          prop_label = ''Hiragana'', prop_icon = ''hiragana.png''\<rparr>],
      kMozcEngineToolProperties = [\<lparr>tool_mode = ''config_dialog'', tool_label = ''Properties''\<rparr>],
      kMozcEngineInitialCompositionMode = DIRECT,
      IsMozcToolAvailable = True,
      GetIconPath = (\<lambda>icon. ''/'' @ icon),
      FindFieldByName = (\<lambda>name.
                           if name = ''incognito_mode''
                           then Some \<lparr>field_name = name, field_cpp_type = CPPTYPE_BOOL,
                                      field_label = LABEL_OPTIONAL, field_enum_type = None\<rparr>
                           else if name = ''preedit_method''
                           then Some \<lparr>field_name = name, field_cpp_type = CPPTYPE_ENUM,
                                      field_label = LABEL_OPTIONAL,
                                      field_enum_type = Some ''PreeditMethod''\<rparr>
                           else if name = ''session_keymap''
                           then Some \<lparr>field_name = name, field_cpp_type = CPPTYPE_ENUM,
                                      field_label = LABEL_OPTIONAL,
                                      field_enum_type = Some ''SessionKeymap''\<rparr>
                           else if name = ''custom_keymap_table''
                           then Some \<lparr>field_name = name, field_cpp_type = CPPTYPE_STRING,
                                      field_label = LABEL_OPTIONAL, field_enum_type = None\<rparr>
                           else None),
      FindEnumValueByName = (\<lambda>name.
                               if name = ''KANA''
                               then Some \<lparr>enum_value_name = name, enum_value_number = 1,
                                          enum_value_type = ''PreeditMethod''\<rparr>
                               else if name = ''ATOK''
                               then Some \<lparr>enum_value_name = name, enum_value_number = 1,
                                          enum_value_type = ''SessionKeymap''\<rparr>
                               else None)\<rparr>"

definition example_chromeos_env :: "nat env" where
  "example_chromeos_env = example_env\<lparr>OS_CHROMEOS := True\<rparr>"

text \<open>
  A session that reports the mode \<open>DIRECT\<close> in every answer, for an engine that starts
  in the first input mode.
\<close>

definition direct_session_env :: "nat env" where
  "direct_session_env =
     example_env
       \<lparr>SendCommand := (\<lambda>s command. (True, empty_output\<lparr>out_mode := Some DIRECT\<rparr>, Suc s)),
        kMozcEngineInitialCompositionMode := InputMode 0\<rparr>"

text \<open>The same, with a session that reports \<open>DIRECT\<close> in its first answer only.\<close>

definition direct_once_env :: "nat env" where
  "direct_once_env =
     direct_session_env
       \<lparr>SendCommand := (\<lambda>s command.
          (True, if s = 0 then empty_output\<lparr>out_mode := Some DIRECT\<rparr> else empty_output, Suc s))\<rparr>"

definition example_world :: "nat world" where
  "example_world = \<lparr>sess = 0, trace = []\<rparr>"

definition direct_session_engine :: engine where
  "direct_session_engine = MozcEngine_constructor direct_session_env 1000"

definition example_engine :: engine where
  "example_engine = MozcEngine_constructor example_env 1000"


section \<open>Properties\<close>

subsection \<open>Traces\<close>

lemma extends_by_refl: "extends_by P w w"
  by (simp add: extends_by_def)

lemma extends_by_trans: "extends_by P w w1 \<Longrightarrow> extends_by P w1 w2 \<Longrightarrow> extends_by P w w2"
  by (auto simp: extends_by_def)

lemma extends_by_emit: "P ev \<Longrightarrow> extends_by P w (emit ev w)"
  by (simp add: extends_by_def emit_def)

lemma extends_by_emit_after: "extends_by P w w1 \<Longrightarrow> P ev \<Longrightarrow> extends_by P w (emit ev w1)"
  by (auto simp: extends_by_def emit_def)

lemma extends_by_sess: "extends_by P w (w\<lparr>sess := s\<rparr>)"
  by (simp add: extends_by_def)

lemma extends_by_mono: "extends_by P w w' \<Longrightarrow> (\<And>ev. P ev \<Longrightarrow> Q ev) \<Longrightarrow> extends_by Q w w'"
  by (auto simp: extends_by_def list_all_iff)

lemma sync_calls_append: "sync_calls (xs @ ys) = sync_calls xs + sync_calls ys"
  by (simp add: sync_calls_def)

subsection \<open>What applying an Output appends to the trace\<close>

lemma call_SendCommand_extends:
  "P (Session_SendCommand c) \<Longrightarrow> extends_by P w (snd (call_SendCommand env c w))"
  by (auto simp: call_SendCommand_def extends_by_def emit_def split: prod.splits)


lemma and_then_extends:
  assumes "extends_by P w (snd r)"
    and "\<And>e1 w1. r = (Some e1, w1) \<Longrightarrow> extends_by P w1 (snd (f e1 w1))"
  shows "extends_by P w (snd (and_then r f))"
proof (cases r)
  case (Pair a w1)
  show ?thesis
  proof (cases a)
    case None
    with Pair assms(1) show ?thesis
      by (simp add: and_then_def)
  next
    case (Some e1)
    with Pair have "extends_by P w1 (snd (f e1 w1))"
      by (simp add: assms(2))
    moreover from Pair assms(1) have "extends_by P w w1"
      by simp
    ultimately have "extends_by P w (snd (f e1 w1))"
      by (rule extends_by_trans [rotated])
    with Pair Some show ?thesis
      by (simp add: and_then_def)
  qed
qed

lemma update_event_simps:
  "update_event (Session_SendCommand SUBMIT)"
  "update_event (Session_SendCommand (SWITCH_INPUT_MODE m))"
  "update_event (Session_LaunchTool t a)"
  "update_event (Host h)"
  "update_event (LOG_ERROR msg)"
  "\<not> update_event (Session_SendCommand REVERT)"
  "\<not> update_event (Session_SendCommand (SELECT_CANDIDATE i))"
  "\<not> update_event Session_SyncData"
  "\<not> update_event (Session_SendKey k)"
  "\<not> update_event Session_GetConfig"
  "\<not> update_event (Session_SetConfig c)"
  by (simp_all add: update_event_def)

lemma SetCompositionMode_body_extends:
  assumes "\<And>out e w. extends_by update_event w (snd (upd out e w))"
  shows "extends_by update_event w (snd (SetCompositionMode_body upd env m e w))"
proof (cases "m = DIRECT")
  case True
  obtain ok out w1 where c: "call_SendCommand env SUBMIT w = ((ok, out), w1)"
    by (metis prod.exhaust)
  have 1: "extends_by update_event w w1"
    using call_SendCommand_extends [of update_event SUBMIT w env] c
    by (simp add: update_event_simps)
  have "extends_by update_event w1
          (snd (and_then (upd out e w1)
                  (\<lambda>e2 w2. (Some (e2\<lparr>current_composition_mode := m\<rparr>), w2))))"
    by (rule and_then_extends [OF assms]) (simp add: extends_by_refl)
  with 1 True c show ?thesis
    by (simp add: SetCompositionMode_body_def extends_by_trans)
next
  case False
  obtain ok out w1 where c: "call_SendCommand env (SWITCH_INPUT_MODE m) w = ((ok, out), w1)"
    by (metis prod.exhaust)
  have "extends_by update_event w w1"
    using call_SendCommand_extends [of update_event "SWITCH_INPUT_MODE m" w env] c
    by (simp add: update_event_simps)
  with False c show ?thesis
    by (simp add: SetCompositionMode_body_def)
qed

lemma radio_loop_extends:
  assumes "\<And>m e w. extends_by update_event w (snd (set_mode m e w))"
  shows "extends_by update_event w (snd (radio_loop set_mode env name idxs e w))"
proof (induction idxs arbitrary: e w)
  case Nil
  show ?case by (simp add: extends_by_refl)
next
  case (Cons i rest)
  show ?case
  proof (cases "i \<ge> length (prop_composition_mode_sub_props e)")
    case True
    then show ?thesis by (simp add: extends_by_refl)
  next
    case False
    show ?thesis
    proof (cases "item_key (prop_composition_mode_sub_props e ! i) = name")
      case diff: False
      then have "name \<noteq> item_key (prop_composition_mode_sub_props e ! i)"
        by blast
      with False show ?thesis
        by (simp add: Cons.IH)
    next
      case same: True
      show ?thesis
      proof (cases "item_data (prop_composition_mode_sub_props e ! i)")
        case None
        with False same show ?thesis
          by (simp add: Cons.IH)
      next
        case (Some entry)
        have "extends_by update_event w
                (snd (and_then (set_mode (prop_composition_mode entry) e w)
                  (\<lambda>e1 w1. radio_loop set_mode env name rest
                      (set_item_state i PROP_STATE_CHECKED
                         (e1\<lparr>prop_composition_mode_icon := c_str_of_string (GetIconPath env (prop_icon entry))\<rparr>))
                      w1)))"
          by (rule and_then_extends [OF assms]) (rule Cons.IH)
        with False same Some show ?thesis
          by simp
      qed
    qed
  qed
qed

lemma PropertyActivate_body_extends:
  assumes "\<And>out e w. extends_by update_event w (snd (upd out e w))"
  shows "extends_by update_event w (snd (PropertyActivate_body upd env name st e w))"
proof (cases "find_tool_item env name e")
  case (Some tool)
  then show ?thesis
    by (auto simp: PropertyActivate_body_def Let_def update_event_simps
          intro!: extends_by_emit_after extends_by_sess extends_by_emit
          split: prod.splits)
next
  case None
  show ?thesis
  proof (cases "st = PROP_STATE_CHECKED")
    case False
    with None show ?thesis
      by (simp add: PropertyActivate_body_def extends_by_refl)
  next
    case True
    have "extends_by update_event w
            (snd (and_then
              (radio_loop (SetCompositionMode_body upd env) env name
                 [0..<length (prop_composition_mode_sub_props e)] e w)
              (\<lambda>e1 w1.
                 (Some e1,
                  emit (Host (ibus_engine_update_property (prop_composition_mode_icon e1)
                               (prop_composition_mode_sub_props e1))) w1))))"
      by (rule and_then_extends [OF radio_loop_extends])
        (simp_all add: SetCompositionMode_body_extends assms extends_by_emit update_event_simps)
    with None True show ?thesis
      by (simp add: PropertyActivate_body_def)
  qed
qed

lemma activate_loop_extends:
  assumes "\<And>key st e w. extends_by update_event w (snd (activate key st e w))"
  shows "extends_by update_event w (snd (activate_loop activate m entries e w))"
proof (induction entries arbitrary: e w)
  case Nil
  show ?case by (simp add: extends_by_refl)
next
  case (Cons entry rest)
  show ?case
  proof (cases "prop_composition_mode entry = m")
    case False
    then show ?thesis by (simp add: Cons.IH)
  next
    case True
    have "extends_by update_event w
            (snd (and_then (activate (prop_key entry) PROP_STATE_CHECKED e w)
                    (activate_loop activate m rest)))"
      by (rule and_then_extends [OF assms]) (rule Cons.IH)
    with True show ?thesis by simp
  qed
qed

lemma UpdateCompositionMode_body_extends:
  assumes "\<And>out e w. extends_by update_event w (snd (upd out e w))"
  shows "extends_by update_event w (snd (UpdateCompositionMode_body upd env out e w))"
  by (auto simp: UpdateCompositionMode_body_def extends_by_refl
        intro!: activate_loop_extends PropertyActivate_body_extends assms
        split: option.splits)

lemma UpdateResult_extends: "extends_by update_event w (UpdateResult out w)"
  by (auto simp: UpdateResult_def extends_by_refl extends_by_emit update_event_simps
        split: option.splits)

lemma log_unknown_annotations_extends:
  "extends_by update_event w (log_unknown_annotations segs w)"
proof (induction segs arbitrary: w)
  case Nil
  show ?case by (simp add: extends_by_refl)
next
  case (Cons seg rest)
  have "extends_by update_event w
          (case seg_annotation seg of
             UnknownAnnotation n \<Rightarrow> emit (LOG_ERROR (''unknown annotation:'' @ decimal n)) w
           | _ \<Rightarrow> w)"
    by (simp add: extends_by_refl extends_by_emit update_event_simps split: annotation.splits)
  then show ?case
    using Cons.IH extends_by_trans by fastforce
qed

lemma ComposePreeditText_world:
  "snd (ComposePreeditText p w) = log_unknown_annotations (pre_segment p) w"
  by (simp add: ComposePreeditText_def Let_def)

lemma UpdatePreedit_extends: "extends_by update_event w (UpdatePreedit out w)"
proof (cases "out_preedit out")
  case None
  then show ?thesis
    by (simp add: UpdatePreedit_def extends_by_emit update_event_simps)
next
  case (Some p)
  have "extends_by update_event w (snd (ComposePreeditText p w))"
    by (simp add: ComposePreeditText_world log_unknown_annotations_extends)
  then have "extends_by update_event w
               (emit (Host (ibus_engine_update_preedit_text (fst (ComposePreeditText p w))
                              (CursorPos out) True))
                  (snd (ComposePreeditText p w)))"
    by (rule extends_by_emit_after) (simp add: update_event_simps)
  with Some show ?thesis
    by (simp add: UpdatePreedit_def case_prod_beta)
qed

lemma UpdateCandidates_extends: "extends_by update_event w (snd (UpdateCandidates out e w))"
  by (auto simp: UpdateCandidates_def Let_def update_event_simps
        intro!: extends_by_emit_after extends_by_emit
        split: option.splits)

lemma UpdateAll_body_extends:
  assumes "\<And>out e w. extends_by update_event w (snd (upd out e w))"
  shows "extends_by update_event w (snd (UpdateAll_body upd env out e w))"
proof -
  obtain e3 w3 where c: "UpdateCandidates out e (UpdatePreedit out (UpdateResult out w)) = (e3, w3)"
    by (metis prod.exhaust)
  have "extends_by update_event w (UpdatePreedit out (UpdateResult out w))"
    by (rule extends_by_trans [OF UpdateResult_extends UpdatePreedit_extends])
  moreover have "extends_by update_event (UpdatePreedit out (UpdateResult out w)) w3"
    using UpdateCandidates_extends [of "UpdatePreedit out (UpdateResult out w)" out e] c
    by simp
  ultimately have "extends_by update_event w w3"
    by (rule extends_by_trans)
  moreover have "extends_by update_event w3 (snd (UpdateCompositionMode_body upd env out e3 w3))"
    by (rule UpdateCompositionMode_body_extends [OF assms])
  ultimately show ?thesis
    using c by (simp add: UpdateAll_body_def Let_def extends_by_trans)
qed

lemma UpdateAll_extends: "extends_by update_event w (snd (UpdateAll depth env out e w))"
proof (induction depth arbitrary: out e w)
  case 0
  show ?case by (simp add: extends_by_refl)
next
  case (Suc depth)
  show ?case
    by (simp add: UpdateAll_body_extends Suc.IH)
qed

lemma SetCompositionMode_extends:
  "extends_by update_event w (snd (SetCompositionMode depth env m e w))"
  by (simp add: SetCompositionMode_def SetCompositionMode_body_extends UpdateAll_extends)

lemma PropertyActivate_extends:
  "extends_by update_event w (snd (PropertyActivate depth env name st e w))"
  by (simp add: PropertyActivate_def PropertyActivate_body_extends UpdateAll_extends)

lemmas example_defs =
  example_env_def example_chromeos_env_def example_world_def example_engine_def
  MozcEngine_constructor_def initial_icon_def example_output_def empty_output_def
  example_preedit_def example_candidates_def default_config_def
  ibus_text_new_from_string_def c_str_def c_str_of_string_def

text \<open>
  One Output applied to the engine as constructed: the committed text, the preedit with
  its attributes, the lookup table, the auxiliary text \<open>1/2\<close> and the candidate ids.
\<close>

lemma UpdateAll_example:
  "UpdateAll 1 example_env example_output example_engine example_world =
     (Some (example_engine\<lparr>unique_candidate_ids := [7, - 1]\<rparr>),
      \<lparr>sess = 0,
       trace =
         [Host (ibus_engine_commit_text \<lparr>text_string = [31169], text_attrs = []\<rparr>),
          Host (ibus_engine_update_preedit_text
                  \<lparr>text_string = [12431, 12383, 12375],
                   text_attrs =
                     [\<lparr>attr_kind = IBUS_ATTR_TYPE_UNDERLINE IBUS_ATTR_UNDERLINE_DOUBLE,
                       start_index = 0, end_index = 2\<rparr>,
                      \<lparr>attr_kind = IBUS_ATTR_TYPE_BACKGROUND 0xD1EAFF, start_index = 0, end_index = 2\<rparr>,
                      \<lparr>attr_kind = IBUS_ATTR_TYPE_FOREGROUND 0, start_index = 0, end_index = 2\<rparr>,
                      \<lparr>attr_kind = IBUS_ATTR_TYPE_UNDERLINE IBUS_ATTR_UNDERLINE_SINGLE,
                       start_index = 2, end_index = 3\<rparr>]\<rparr>
                  0 True),
          Host (ibus_engine_update_lookup_table
                  \<lparr>table_page_size = 9, table_cursor_pos = 0, table_cursor_visible = True,
                   table_round = True,
                   table_candidates =
                     [\<lparr>text_string = [31169], text_attrs = []\<rparr>,
                      \<lparr>text_string = [12431, 12383], text_attrs = []\<rparr>],
                   table_labels =
                     [\<lparr>text_string = [], text_attrs = []\<rparr>,
                      \<lparr>text_string = [49], text_attrs = []\<rparr>]\<rparr>
                  True),
          Host (ibus_engine_update_auxiliary_text \<lparr>text_string = [49, 47, 50], text_attrs = []\<rparr> True)]\<rparr>)"
  by (simp add: example_defs emit_def UpdateAll_body_def UpdateResult_def UpdatePreedit_def
      UpdateCandidates_def UpdateCompositionMode_body_def ComposePreeditText_def
      ComposeAuxiliaryText_def CursorPos_def focused_index_def utf8_of_def decimal_def digits.simps
      Let_def candidate_label_def kBadCandidateId_def kBackgroundColor_def kForegroundColor_def
      underline_of_def)

text \<open>
  The numbers of the auxiliary text are those of 32-bit arithmetic printed with
  \<open>%d\<close>, and a text handed over as a C string ends at its first NUL.
\<close>

lemma ComposeAuxiliaryText_example:
  "ComposeAuxiliaryText \<lparr>cands_focused_index = Some 0x7FFFFFFF, cands_size = 0xFFFFFFFF,
                          cands_candidate = []\<rparr> =
     ibus_text_new_from_string (utf8_of ''-2147483648/-1'')"
  "ComposeAuxiliaryText \<lparr>cands_focused_index = Some 0xFFFFFFFF, cands_size = 200,
                          cands_candidate = []\<rparr> =
     ibus_text_new_from_string (utf8_of ''0/200'')"
  by (simp_all add: ComposeAuxiliaryText_def focused_index_def utf8_of_def decimal_def digits.simps)

lemma UpdateResult_example:
  "UpdateResult (empty_output\<lparr>out_result := Some [97, 0, 98]\<rparr>) example_world =
     \<lparr>sess = 0, trace = [Host (ibus_engine_commit_text \<lparr>text_string = [97], text_attrs = []\<rparr>)]\<rparr>"
  by (simp add: UpdateResult_def example_defs emit_def)

lemma log_unknown_annotations_example:
  "snd (ComposePreeditText
          \<lparr>pre_segment = [\<lparr>seg_value = [97], seg_value_length = 1, seg_annotation = UnknownAnnotation 3\<rparr>],
           pre_highlighted_position = None, pre_cursor = 0\<rparr> example_world) =
     \<lparr>sess = 0, trace = [LOG_ERROR ''unknown annotation:3'']\<rparr>"
  by (simp add: ComposePreeditText_def Let_def example_defs emit_def decimal_def digits.simps)

subsection \<open>Release events\<close>

text \<open>
  C2. A key event whose modifiers carry the release bit is answered with "not consumed"
  at once: the engine and the world are left as they were, so the key translator and
  the session client are not called.
\<close>

theorem ProcessKeyEvent_release:
  assumes "modifiers AND IBUS_RELEASE_MASK env \<noteq> 0"
  shows "ProcessKeyEvent depth env keyval keycode modifiers e w = (Some (False, e), w)"
  using assms by (simp add: ProcessKeyEvent_def)

theorem ProcessKeyEvent_release_witness:
  "ProcessKeyEvent (Suc 0) example_env 97 38 0x40000000 example_engine example_world =
     (Some (False, example_engine), example_world)"
proof -
  have "(0x40000000 :: 32 word) AND IBUS_RELEASE_MASK example_env \<noteq> 0"
    by (simp add: example_env_def)
  then show ?thesis
    by (rule ProcessKeyEvent_release)
qed

subsection \<open>Debounced persistence\<close>

lemma unat_kSyncDataInterval: "unat kSyncDataInterval = 300"
  by (simp add: kSyncDataInterval_def)

lemma SyncData_due_iff:
  "(current_time \<ge> last_sync_time e \<and> current_time - last_sync_time e \<ge> kSyncDataInterval) =
   (unat (last_sync_time e) \<le> unat current_time \<and>
    300 \<le> unat current_time - unat (last_sync_time e))"
proof (cases "current_time \<ge> last_sync_time e")
  case True
  then have "unat (current_time - last_sync_time e) = unat current_time - unat (last_sync_time e)"
    by (simp add: unat_sub)
  with True show ?thesis
    by (simp add: word_le_nat_alt unat_kSyncDataInterval)
next
  case False
  then show ?thesis
    by (simp add: word_le_nat_alt)
qed

text \<open>
  C10. A non-forced \<open>SyncData\<close> calls the session's \<open>syncData\<close> exactly when the session
  exists, the current time is not earlier than \<open>last_sync_time\<close> and the elapsed time is
  at least 300 seconds; it then records the current time. Otherwise engine and world
  stay as they are: in particular when the clock has moved backwards, and
  \<open>last_sync_time\<close> changes only together with a \<open>syncData\<close> call.
\<close>

theorem SyncData_not_forced:
  fixes env :: "'s env"
  assumes "SyncData env current_time False e w = (e', w')"
  shows "(if \<not> session_is_null e \<and> unat (last_sync_time e) \<le> unat current_time \<and>
             300 \<le> unat current_time - unat (last_sync_time e)
          then e' = e\<lparr>last_sync_time := current_time\<rparr> \<and>
               sess w' = SyncData_session env (sess w) \<and>
               trace w' = trace w @ [Session_SyncData]
          else e' = e \<and> w' = w) \<and>
         (current_time < last_sync_time e \<longrightarrow> e' = e \<and> w' = w) \<and>
         (last_sync_time e' \<noteq> last_sync_time e \<longrightarrow>
            sync_calls (trace w') = sync_calls (trace w) + 1)"
proof -
  have eq: "(e', w') =
      (if \<not> session_is_null e \<and> unat (last_sync_time e) \<le> unat current_time \<and>
          300 \<le> unat current_time - unat (last_sync_time e)
       then (e\<lparr>last_sync_time := current_time\<rparr>,
             emit Session_SyncData (w\<lparr>sess := SyncData_session env (sess w)\<rparr>))
       else (e, w))"
    unfolding assms [symmetric] SyncData_def
    by (simp add: SyncData_due_iff)
  have earlier: "current_time < last_sync_time e \<Longrightarrow> \<not> unat (last_sync_time e) \<le> unat current_time"
    by (simp add: word_less_nat_alt)
  show ?thesis
    using eq earlier
    by (auto simp: emit_def sync_calls_def split: if_splits)
qed

theorem SyncData_not_forced_witness:
  "SyncData example_env 1400 False example_engine example_world =
     (example_engine\<lparr>last_sync_time := 1400\<rparr>, \<lparr>sess = 1, trace = [Session_SyncData]\<rparr>) \<and>
   SyncData example_env 900 False example_engine example_world = (example_engine, example_world) \<and>
   SyncData example_env 1200 False example_engine example_world = (example_engine, example_world)"
proof -
  obtain e1 w1 where r1: "SyncData example_env 1400 False example_engine example_world = (e1, w1)"
    by (cases "SyncData example_env 1400 False example_engine example_world")
  obtain e2 w2 where r2: "SyncData example_env 900 False example_engine example_world = (e2, w2)"
    by (cases "SyncData example_env 900 False example_engine example_world")
  obtain e3 w3 where r3: "SyncData example_env 1200 False example_engine example_world = (e3, w3)"
    by (cases "SyncData example_env 1200 False example_engine example_world")
  have "e1 = example_engine\<lparr>last_sync_time := 1400\<rparr> \<and> w1 = \<lparr>sess = 1, trace = [Session_SyncData]\<rparr>"
    using SyncData_not_forced [OF r1] by (simp add: example_defs)
  moreover have "e2 = example_engine \<and> w2 = example_world"
    using SyncData_not_forced [OF r2] by (simp add: example_defs)
  moreover have "e3 = example_engine \<and> w3 = example_world"
    using SyncData_not_forced [OF r3] by (simp add: example_defs)
  ultimately show ?thesis
    using r1 r2 r3 by simp
qed

subsection \<open>Candidate ids\<close>

lemma push_candidate_ids_map:
  "push_candidate_ids ids cs =
     ids @ map (\<lambda>c. case cand_id c of Some i \<Rightarrow> i | None \<Rightarrow> kBadCandidateId) cs"
  by (induction cs arbitrary: ids) (auto split: option.splits)

lemma CandidateClicked_extends:
  "extends_by (\<lambda>ev. ev \<noteq> Session_SendCommand (SELECT_CANDIDATE kBadCandidateId)) w
     (snd (CandidateClicked depth env index button state e w))"
proof (cases "index \<ge> length (unique_candidate_ids e) \<or> unique_candidate_ids e ! index = kBadCandidateId")
  case True
  then show ?thesis
    by (auto simp: CandidateClicked_def Let_def extends_by_refl)
next
  case False
  let ?P = "\<lambda>ev. ev \<noteq> Session_SendCommand (SELECT_CANDIDATE kBadCandidateId)"
  let ?id = "unique_candidate_ids e ! index"
  obtain ok out w1 where c: "call_SendCommand env (SELECT_CANDIDATE ?id) w = ((ok, out), w1)"
    by (metis prod.exhaust)
  have "extends_by ?P w w1"
    using call_SendCommand_extends [of ?P "SELECT_CANDIDATE ?id" w env] c False
    by simp
  moreover have "extends_by ?P w1 (snd (UpdateAll depth env out e w1))"
    by (rule extends_by_mono [OF UpdateAll_extends]) (auto simp: update_event_simps)
  ultimately have "extends_by ?P w (snd (UpdateAll depth env out e w1))"
    by (rule extends_by_trans)
  with False c show ?thesis
    by (simp add: CandidateClicked_def Let_def)
qed

lemma update_event_selects: "update_event ev \<Longrightarrow> \<not> selects_bad_candidate ev"
  by (auto simp: selects_bad_candidate_def update_event_simps)

lemma UpdateAll_never_selects:
  "extends_by (\<lambda>ev. \<not> selects_bad_candidate ev) w (snd (UpdateAll depth env out e w))"
  by (rule extends_by_mono [OF UpdateAll_extends]) (rule update_event_selects)

lemma RevertSession_never_selects:
  "extends_by (\<lambda>ev. \<not> selects_bad_candidate ev) w (snd (RevertSession depth env e w))"
proof -
  let ?P = "\<lambda>ev. \<not> selects_bad_candidate ev"
  obtain ok out w1 where c: "call_SendCommand env REVERT w = ((ok, out), w1)"
    by (metis prod.exhaust)
  have 1: "extends_by ?P w w1"
    using call_SendCommand_extends [of ?P REVERT w env] c
    by (simp add: selects_bad_candidate_def)
  show ?thesis
  proof (cases ok)
    case False
    with c 1 show ?thesis
      by (simp add: RevertSession_def extends_by_emit_after selects_bad_candidate_def)
  next
    case True
    from 1 UpdateAll_never_selects have "extends_by ?P w (snd (UpdateAll depth env out e w1))"
      by (rule extends_by_trans)
    with True c show ?thesis
      by (simp add: RevertSession_def)
  qed
qed

lemma SyncData_never_selects:
  "extends_by (\<lambda>ev. \<not> selects_bad_candidate ev) w (snd (SyncData env t force e w))"
  by (simp add: SyncData_def extends_by_refl extends_by_emit_after extends_by_sess
      selects_bad_candidate_def)

lemma FocusOut_never_selects:
  "extends_by (\<lambda>ev. \<not> selects_bad_candidate ev) w (snd (FocusOut depth env t e w))"
proof -
  have "extends_by (\<lambda>ev. \<not> selects_bad_candidate ev) w
          (snd (and_then (RevertSession depth env e w)
             (\<lambda>e1 w1. case SyncData env t False e1 w1 of (e2, w2) \<Rightarrow> (Some e2, w2))))"
  proof (rule and_then_extends [OF RevertSession_never_selects])
    fix e1 :: engine and w1 :: "'a world"
    show "extends_by (\<lambda>ev. \<not> selects_bad_candidate ev) w1
            (snd (case SyncData env t False e1 w1 of (e2, w2) \<Rightarrow> (Some e2, w2)))"
      using SyncData_never_selects [of w1 env t False e1]
      by (cases "SyncData env t False e1 w1") simp
  qed
  then show ?thesis
    by (simp add: FocusOut_def)
qed

lemma UpdatePreeditMethod_never_selects:
  "extends_by (\<lambda>ev. \<not> selects_bad_candidate ev) w (snd (UpdatePreeditMethod env e w))"
  by (auto simp: UpdatePreeditMethod_def Let_def selects_bad_candidate_def
        intro!: extends_by_emit_after extends_by_sess
        split: prod.splits option.splits)

lemma Enable_never_selects:
  "extends_by (\<lambda>ev. \<not> selects_bad_candidate ev) w (snd (Enable depth env e w))"
proof -
  let ?P = "\<lambda>ev. \<not> selects_bad_candidate ev"
  obtain ok s where c: "EnsureConnection env (sess w) = (ok, s)"
    by (metis prod.exhaust)
  let ?w0 = "emit Session_EnsureConnection (w\<lparr>sess := s\<rparr>)"
  obtain e1 w1 where u: "UpdatePreeditMethod env e ?w0 = (e1, w1)"
    by (metis prod.exhaust)
  have "extends_by ?P w ?w0"
    by (intro extends_by_emit_after extends_by_sess) (simp add: selects_bad_candidate_def)
  moreover have "extends_by ?P ?w0 w1"
    using UpdatePreeditMethod_never_selects [of ?w0 env e] u by simp
  moreover have "extends_by ?P w1 (snd (RevertSession depth env e1 w1))"
    by (rule RevertSession_never_selects)
  ultimately have "extends_by ?P w (snd (RevertSession depth env e1 w1))"
    by (blast intro: extends_by_trans)
  with c u show ?thesis
    by (simp add: Enable_def)
qed

lemma PropertyActivate_never_selects:
  "extends_by (\<lambda>ev. \<not> selects_bad_candidate ev) w (snd (PropertyActivate depth env name st e w))"
  by (rule extends_by_mono [OF PropertyActivate_extends]) (rule update_event_selects)

lemma ProcessKeyEvent_never_selects:
  "extends_by (\<lambda>ev. \<not> selects_bad_candidate ev) w
     (snd (ProcessKeyEvent depth env keyval keycode modifiers e w))"
proof (cases "modifiers AND IBUS_RELEASE_MASK env \<noteq> 0")
  case True
  then show ?thesis
    by (simp add: ProcessKeyEvent_def extends_by_refl)
next
  case False
  let ?P = "\<lambda>ev. \<not> selects_bad_candidate ev"
  obtain e1 w1 where p: "(if OS_CHROMEOS env then UpdatePreeditMethod env e w else (e, w)) = (e1, w1)"
    by (metis prod.exhaust)
  have 1: "extends_by ?P w w1"
    using p UpdatePreeditMethod_never_selects [of w env e]
    by (auto simp: extends_by_refl split: if_splits)
  let ?w2 = "emit (KeyTranslator_Translate keyval keycode modifiers
                     (preedit_method_member e1) (layout_is_jp env)) w1"
  have 2: "extends_by ?P w ?w2"
    using 1 by (rule extends_by_emit_after) (simp add: selects_bad_candidate_def)
  show ?thesis
  proof (cases "Translate env keyval keycode modifiers (preedit_method_member e1) (layout_is_jp env)")
    case None
    with False p 2 show ?thesis
      by (simp add: ProcessKeyEvent_def Let_def extends_by_emit_after selects_bad_candidate_def)
  next
    case (Some key)
    show ?thesis
    proof (cases "current_composition_mode e1 = DIRECT \<and> \<not> IsTurnOnInDirectMode env key")
      case True
      with False p Some 2 show ?thesis
        by (simp add: ProcessKeyEvent_def Let_def)
    next
      case on: False
      obtain ok out s where k: "SendKey env (sess ?w2) key = (ok, out, s)"
        by (metis prod.exhaust)
      let ?w3 = "emit (Session_SendKey key) (?w2\<lparr>sess := s\<rparr>)"
      have "extends_by ?P ?w2 ?w3"
        by (intro extends_by_emit_after extends_by_sess) (simp add: selects_bad_candidate_def)
      with 2 have 3: "extends_by ?P w ?w3"
        by (rule extends_by_trans)
      show ?thesis
      proof (cases ok)
        case nok: False
        have "extends_by ?P w (emit (LOG_ERROR ''SendKey failed'') ?w3)"
          using 3 by (rule extends_by_emit_after) (simp add: selects_bad_candidate_def)
        with False p Some on k nok show ?thesis
          by (auto simp: ProcessKeyEvent_def Let_def)
      next
        case True
        from 3 UpdateAll_never_selects
        have "extends_by ?P w (snd (UpdateAll depth env out e1 ?w3))"
          by (rule extends_by_trans)
        with False p Some on k True show ?thesis
          by (auto simp: ProcessKeyEvent_def Let_def split: prod.splits option.splits)
      qed
    qed
  qed
qed


text \<open>
  C3. After \<open>UpdateCandidates\<close> the stored id list has one entry for each candidate of
  the Output, in order: the candidate's id, or \<open>kBadCandidateId\<close> where it has none; it
  is empty when the Output has no candidates. \<open>CandidateClicked\<close> with an index past the
  list, or on an entry that holds \<open>kBadCandidateId\<close>, leaves engine and world as they
  are. No event that \<open>CandidateClicked\<close> appends, whatever the index and however deep
  the update nests, is a \<open>SELECT_CANDIDATE\<close> of \<open>kBadCandidateId\<close>, and none that
  the other callbacks append is one either.
\<close>

theorem candidate_ids_aligned:
  "unique_candidate_ids (fst (UpdateCandidates out e0 w0)) =
     (case out_candidates out of
        None \<Rightarrow> []
      | Some cs \<Rightarrow>
          map (\<lambda>c. case cand_id c of Some i \<Rightarrow> i | None \<Rightarrow> kBadCandidateId) (cands_candidate cs)) \<and>
   (index \<ge> length (unique_candidate_ids e) \<or> unique_candidate_ids e ! index = kBadCandidateId \<longrightarrow>
      CandidateClicked depth env index button state e w = (Some e, w)) \<and>
   extends_by (\<lambda>ev. \<not> selects_bad_candidate ev) w
     (snd (CandidateClicked depth env index button state e w)) \<and>
   extends_by (\<lambda>ev. \<not> selects_bad_candidate ev) w
     (snd (ProcessKeyEvent depth env keyval keycode modifiers e w)) \<and>
   extends_by (\<lambda>ev. \<not> selects_bad_candidate ev) w (snd (PropertyActivate depth env name st e w)) \<and>
   extends_by (\<lambda>ev. \<not> selects_bad_candidate ev) w (snd (Enable depth env e w)) \<and>
   extends_by (\<lambda>ev. \<not> selects_bad_candidate ev) w (snd (Disable depth env e w)) \<and>
   extends_by (\<lambda>ev. \<not> selects_bad_candidate ev) w (snd (Reset depth env e w)) \<and>
   extends_by (\<lambda>ev. \<not> selects_bad_candidate ev) w (snd (FocusOut depth env t e w))"
proof (intro conjI)
  show "unique_candidate_ids (fst (UpdateCandidates out e0 w0)) =
     (case out_candidates out of
        None \<Rightarrow> []
      | Some cs \<Rightarrow>
          map (\<lambda>c. case cand_id c of Some i \<Rightarrow> i | None \<Rightarrow> kBadCandidateId) (cands_candidate cs))"
    by (simp add: UpdateCandidates_def Let_def push_candidate_ids_map split: option.splits)
  show "index \<ge> length (unique_candidate_ids e) \<or> unique_candidate_ids e ! index = kBadCandidateId \<longrightarrow>
      CandidateClicked depth env index button state e w = (Some e, w)"
    by (auto simp: CandidateClicked_def Let_def)
  show "extends_by (\<lambda>ev. \<not> selects_bad_candidate ev) w
     (snd (CandidateClicked depth env index button state e w))"
    using CandidateClicked_extends [of w depth env index button state e]
    by (simp add: selects_bad_candidate_def)
  show "extends_by (\<lambda>ev. \<not> selects_bad_candidate ev) w
     (snd (ProcessKeyEvent depth env keyval keycode modifiers e w))"
    by (rule ProcessKeyEvent_never_selects)
  show "extends_by (\<lambda>ev. \<not> selects_bad_candidate ev) w (snd (PropertyActivate depth env name st e w))"
    by (rule PropertyActivate_never_selects)
  show "extends_by (\<lambda>ev. \<not> selects_bad_candidate ev) w (snd (Enable depth env e w))"
    by (rule Enable_never_selects)
  show "extends_by (\<lambda>ev. \<not> selects_bad_candidate ev) w (snd (Disable depth env e w))"
    by (simp add: Disable_def RevertSession_never_selects)
  show "extends_by (\<lambda>ev. \<not> selects_bad_candidate ev) w (snd (Reset depth env e w))"
    by (simp add: Reset_def RevertSession_never_selects)
  show "extends_by (\<lambda>ev. \<not> selects_bad_candidate ev) w (snd (FocusOut depth env t e w))"
    by (rule FocusOut_never_selects)
qed

theorem candidate_ids_aligned_witness:
  "unique_candidate_ids (fst (UpdateCandidates example_output example_engine example_world)) = [7, - 1] \<and>
   CandidateClicked (Suc 0) example_env 1 0 0
     (example_engine\<lparr>unique_candidate_ids := [7, - 1]\<rparr>) example_world =
     (Some (example_engine\<lparr>unique_candidate_ids := [7, - 1]\<rparr>), example_world)"
  using candidate_ids_aligned [where out = example_output and ?e0.0 = example_engine
      and ?w0.0 = example_world and index = 1
      and e = "example_engine\<lparr>unique_candidate_ids := [7, - 1]\<rparr>" and depth = "Suc 0"
      and env = example_env and button = 0 and state = 0 and w = example_world]
  by (simp add: example_defs kBadCandidateId_def)

subsection \<open>Composition mode\<close>

lemma item_identities_set_item_state:
  "item_identities (set_item_state i st e) = item_identities e"
proof (cases "i < length (prop_composition_mode_sub_props e)")
  case True
  then show ?thesis
    by (simp add: item_identities_def set_item_state_def map_update list_update_same_conv)
next
  case False
  then have "length (prop_composition_mode_sub_props e) \<le> i"
    by simp
  then show ?thesis
    by (simp add: item_identities_def set_item_state_def list_update_beyond)
qed

lemma item_identities_simps:
  "item_identities (e\<lparr>prop_composition_mode_icon := icon\<rparr>) = item_identities e"
  "item_identities (e\<lparr>current_composition_mode := m\<rparr>) = item_identities e"
  "item_identities (e\<lparr>unique_candidate_ids := ids\<rparr>) = item_identities e"
  by (simp_all add: item_identities_def)

lemma no_direct_item_cong:
  "item_identities e' = item_identities e \<Longrightarrow> no_direct_item name e' = no_direct_item name e"
  by (simp add: no_direct_item_def)

lemma nest_free_cong:
  "item_identities e' = item_identities e \<Longrightarrow> nest_free env m e' = nest_free env m e"
  by (simp add: nest_free_def no_direct_item_def)

lemma no_direct_item_nth:
  assumes "no_direct_item name e"
    and "i < length (prop_composition_mode_sub_props e)"
    and "item_key (prop_composition_mode_sub_props e ! i) = name"
    and "item_data (prop_composition_mode_sub_props e ! i) = Some entry"
  shows "prop_composition_mode entry \<noteq> DIRECT"
proof -
  from assms(2) have "(item_key (prop_composition_mode_sub_props e ! i),
                       item_data (prop_composition_mode_sub_props e ! i)) \<in> set (item_identities e)"
    by (auto simp: item_identities_def)
  with assms(1,3,4) show ?thesis
    by (auto simp: no_direct_item_def list_all_iff)
qed

lemma SetCompositionMode_body_other:
  "m \<noteq> DIRECT \<Longrightarrow>
     SetCompositionMode_body upd env m e w =
       (Some (e\<lparr>current_composition_mode := m\<rparr>), snd (call_SendCommand env (SWITCH_INPUT_MODE m) w))"
  by (simp add: SetCompositionMode_body_def split: prod.splits)

lemma radio_loop_returns:
  assumes "no_direct_item name e"
  shows "\<exists>e'. fst (radio_loop (SetCompositionMode_body upd env) env name idxs e w) = Some e' \<and>
              item_identities e' = item_identities e"
  using assms
proof (induction idxs arbitrary: e w)
  case Nil
  show ?case by simp
next
  case (Cons i rest)
  let ?items = "prop_composition_mode_sub_props e"
  show ?case
  proof (cases "i \<ge> length ?items")
    case True
    then show ?thesis by simp
  next
    case False
    then have i: "i < length ?items" by simp
    have step: "\<And>e1 w1. item_identities e1 = item_identities e \<Longrightarrow>
        \<exists>e'. fst (radio_loop (SetCompositionMode_body upd env) env name rest e1 w1) = Some e' \<and>
             item_identities e' = item_identities e"
    proof -
      fix e1 :: engine and w1 :: "'a world"
      assume same: "item_identities e1 = item_identities e"
      with Cons.prems have "no_direct_item name e1"
        using no_direct_item_cong [OF same, of name] by simp
      then have "\<exists>e'. fst (radio_loop (SetCompositionMode_body upd env) env name rest e1 w1) = Some e' \<and>
             item_identities e' = item_identities e1"
        by (rule Cons.IH)
      with same show "\<exists>e'. fst (radio_loop (SetCompositionMode_body upd env) env name rest e1 w1) = Some e' \<and>
             item_identities e' = item_identities e"
        by simp
    qed
    show ?thesis
    proof (cases "item_key (?items ! i) = name")
      case diff: False
      then have ne: "name \<noteq> item_key (?items ! i)"
        by blast
      have "\<exists>e'. fst (radio_loop (SetCompositionMode_body upd env) env name rest
                        (set_item_state i PROP_STATE_UNCHECKED e) w) = Some e' \<and>
             item_identities e' = item_identities e"
        by (rule step) (rule item_identities_set_item_state)
      with i ne show ?thesis
        by simp
    next
      case same: True
      show ?thesis
      proof (cases "item_data (?items ! i)")
        case None
        have "\<exists>e'. fst (radio_loop (SetCompositionMode_body upd env) env name rest
                        (set_item_state i PROP_STATE_CHECKED e) w) = Some e' \<and>
             item_identities e' = item_identities e"
          by (rule step) (rule item_identities_set_item_state)
        with i same None show ?thesis
          by simp
      next
        case (Some entry)
        have m: "prop_composition_mode entry \<noteq> DIRECT"
          using Cons.prems i same Some by (rule no_direct_item_nth)
        let ?w1 = "snd (call_SendCommand env (SWITCH_INPUT_MODE (prop_composition_mode entry)) w)"
        let ?e1 = "set_item_state i PROP_STATE_CHECKED
                     (e\<lparr>current_composition_mode := prop_composition_mode entry,
                        prop_composition_mode_icon := c_str_of_string (GetIconPath env (prop_icon entry))\<rparr>)"
        have "\<exists>e'. fst (radio_loop (SetCompositionMode_body upd env) env name rest ?e1 ?w1) = Some e' \<and>
             item_identities e' = item_identities e"
          by (rule step) (simp add: item_identities_set_item_state item_identities_simps)
        with i same Some show ?thesis
          by (simp add: SetCompositionMode_body_other [OF m] and_then_def)
      qed
    qed
  qed
qed

lemma PropertyActivate_body_returns:
  assumes "no_direct_item name e"
  shows "\<exists>e'. fst (PropertyActivate_body upd env name st e w) = Some e' \<and>
              item_identities e' = item_identities e"
proof (cases "find_tool_item env name e")
  case (Some tool)
  then show ?thesis
    by (simp add: PropertyActivate_body_def Let_def split: prod.splits)
next
  case None
  show ?thesis
  proof (cases "st = PROP_STATE_CHECKED")
    case False
    with None show ?thesis
      by (simp add: PropertyActivate_body_def)
  next
    case True
    obtain e' where e': "fst (radio_loop (SetCompositionMode_body upd env) env name
                 [0..<length (prop_composition_mode_sub_props e)] e w) = Some e'"
      and same: "item_identities e' = item_identities e"
      using radio_loop_returns [OF assms, of upd env "[0..<length (prop_composition_mode_sub_props e)]" w]
      by (elim exE conjE)
    obtain w' where "radio_loop (SetCompositionMode_body upd env) env name
                 [0..<length (prop_composition_mode_sub_props e)] e w = (Some e', w')"
      using e' by (cases "radio_loop (SetCompositionMode_body upd env) env name
                 [0..<length (prop_composition_mode_sub_props e)] e w") simp
    with None True same show ?thesis
      by (simp add: PropertyActivate_body_def and_then_def)
  qed
qed

lemma activate_loop_returns:
  assumes "list_all (\<lambda>entry. prop_composition_mode entry \<noteq> m \<or> no_direct_item (prop_key entry) e) entries"
  shows "\<exists>e'. fst (activate_loop (PropertyActivate_body upd env) m entries e w) = Some e' \<and>
              item_identities e' = item_identities e"
  using assms
proof (induction entries arbitrary: e w)
  case Nil
  show ?case by simp
next
  case (Cons entry rest)
  from Cons.prems
  have rest: "list_all (\<lambda>entry. prop_composition_mode entry \<noteq> m \<or> no_direct_item (prop_key entry) e) rest"
    by simp
  show ?case
  proof (cases "prop_composition_mode entry = m")
    case False
    with Cons.IH [OF rest] show ?thesis
      by simp
  next
    case True
    with Cons.prems have "no_direct_item (prop_key entry) e"
      by simp
    then obtain e1 where e1: "fst (PropertyActivate_body upd env (prop_key entry) PROP_STATE_CHECKED e w) = Some e1"
      and same: "item_identities e1 = item_identities e"
      using PropertyActivate_body_returns [of "prop_key entry" e upd env PROP_STATE_CHECKED w]
      by blast
    obtain w1 where r: "PropertyActivate_body upd env (prop_key entry) PROP_STATE_CHECKED e w = (Some e1, w1)"
      using e1 by (cases "PropertyActivate_body upd env (prop_key entry) PROP_STATE_CHECKED e w") simp
    from rest
    have "list_all (\<lambda>entry. prop_composition_mode entry \<noteq> m \<or> no_direct_item (prop_key entry) e1) rest"
      by (simp add: no_direct_item_cong [OF same])
    then have "\<exists>e'. fst (activate_loop (PropertyActivate_body upd env) m rest e1 w1) = Some e' \<and>
              item_identities e' = item_identities e1"
      by (rule Cons.IH)
    with True r same show ?thesis
      by (simp add: and_then_def)
  qed
qed

lemma UpdateAll_returns:
  assumes "case out_mode out of
             None \<Rightarrow> True
           | Some m \<Rightarrow> m = current_composition_mode e \<or> nest_free env m e"
  shows "fst (UpdateAll (Suc depth) env out e w) \<noteq> None"
proof -
  obtain e3 w3 where c: "UpdateCandidates out e (UpdatePreedit out (UpdateResult out w)) = (e3, w3)"
    by (metis prod.exhaust)
  then have e3: "current_composition_mode e3 = current_composition_mode e"
    "item_identities e3 = item_identities e"
    by (auto simp: UpdateCandidates_def Let_def item_identities_def split: option.splits)
  have "fst (UpdateCompositionMode_body (UpdateAll depth env) env out e3 w3) \<noteq> None"
  proof (cases "out_mode out")
    case None
    then show ?thesis
      by (simp add: UpdateCompositionMode_body_def)
  next
    case (Some m)
    show ?thesis
    proof (cases "current_composition_mode e3 = m")
      case True
      with Some show ?thesis
        by (simp add: UpdateCompositionMode_body_def)
    next
      case False
      with Some assms e3 have "nest_free env m e"
        by auto
      then have "nest_free env m e3"
        by (simp add: nest_free_cong [OF e3(2)])
      then have "list_all (\<lambda>entry. prop_composition_mode entry \<noteq> m \<or> no_direct_item (prop_key entry) e3)
                   (kMozcEngineProperties env)"
        by (simp add: nest_free_def)
      then obtain e' where "fst (activate_loop (PropertyActivate_body (UpdateAll depth env) env) m
                                   (kMozcEngineProperties env) e3 w3) = Some e'"
        using activate_loop_returns [of m e3 "kMozcEngineProperties env" "UpdateAll depth env" env w3]
        by blast
      with Some False show ?thesis
        by (simp add: UpdateCompositionMode_body_def)
    qed
  qed
  with c show ?thesis
    by (simp add: UpdateAll_body_def Let_def)
qed

text \<open>The engine as constructed, over a table whose keys are distinct.\<close>

lemma constructor_nest_free:
  assumes "distinct (map prop_key (kMozcEngineProperties env))"
    and "m \<noteq> DIRECT"
  shows "nest_free env m (MozcEngine_constructor env t)"
proof -
  let ?table = "kMozcEngineProperties env"
  have ids: "item_identities (MozcEngine_constructor env t) = map (\<lambda>entry. (prop_key entry, Some entry)) ?table"
    by (simp add: item_identities_def MozcEngine_constructor_def comp_def)
  have "\<And>entry. entry \<in> set ?table \<Longrightarrow> prop_composition_mode entry = m \<Longrightarrow>
          no_direct_item (prop_key entry) (MozcEngine_constructor env t)"
  proof -
    fix entry
    assume entry: "entry \<in> set ?table" and mode: "prop_composition_mode entry = m"
    from assms(1) have inj: "inj_on prop_key (set ?table)"
      by (simp add: distinct_map)
    have "\<And>other. other \<in> set ?table \<Longrightarrow> prop_key other = prop_key entry \<Longrightarrow> other = entry"
      using inj entry by (auto dest: inj_onD)
    with mode assms(2) show "no_direct_item (prop_key entry) (MozcEngine_constructor env t)"
      unfolding no_direct_item_def ids by (auto simp: list_all_iff)
  qed
  then show ?thesis
    unfolding nest_free_def by (auto simp: list_all_iff)
qed

lemma extends_by_first:
  assumes "trace w1 = trace w @ [ev]" and "extends_by P w1 w2"
  shows "\<exists>rest. trace w2 = trace w @ ev # rest"
  using assms by (auto simp: extends_by_def)

text \<open>
  What holds of every call. Let \<open>command\<close> be \<open>SUBMIT\<close> for the target \<open>DIRECT\<close> and
  \<open>SWITCH_INPUT_MODE\<close> of the target otherwise, and \<open>out\<close> the session's answer to it.
  \<open>SetCompositionMode\<close> sends \<open>command\<close> first; for \<open>DIRECT\<close> it then applies
  \<open>out\<close> with \<open>UpdateAll\<close> and sets the mode, otherwise it sets the mode at once. It
  never sends \<open>REVERT\<close>, and whenever it returns the mode is the requested one,
  whatever the session answered. It does return when \<open>out\<close> carries no mode, the
  engine's current mode, or a mode whose activation reaches no radio item for
  \<open>DIRECT\<close> (\<open>nest_free\<close>); the one answer left, \<open>DIRECT\<close> to an engine in another
  mode, makes the update send \<open>SUBMIT\<close> again.
\<close>

lemma SetCompositionMode_commands:
  fixes env :: "'s env"
  assumes "command = (if composition_mode = DIRECT then SUBMIT else SWITCH_INPUT_MODE composition_mode)"
    and "SendCommand env (sess w) command = (ok, out, s)"
    and "w1 = emit (Session_SendCommand command) (w\<lparr>sess := s\<rparr>)"
  shows "(composition_mode = DIRECT \<longrightarrow>
            SetCompositionMode depth env composition_mode e w =
              and_then (UpdateAll depth env out e w1)
                (\<lambda>e2 w2. (Some (e2\<lparr>current_composition_mode := DIRECT\<rparr>), w2))) \<and>
         (composition_mode \<noteq> DIRECT \<longrightarrow>
            SetCompositionMode depth env composition_mode e w =
              (Some (e\<lparr>current_composition_mode := composition_mode\<rparr>), w1)) \<and>
         (\<exists>rest. trace (snd (SetCompositionMode depth env composition_mode e w)) =
                    trace w @ Session_SendCommand command # rest) \<and>
         extends_by (\<lambda>ev. ev \<noteq> Session_SendCommand REVERT) w
           (snd (SetCompositionMode depth env composition_mode e w)) \<and>
         (\<forall>e'. fst (SetCompositionMode depth env composition_mode e w) = Some e' \<longrightarrow>
                current_composition_mode e' = composition_mode) \<and>
         (0 < depth \<and>
          (case out_mode out of
             None \<Rightarrow> True
           | Some m \<Rightarrow> m = current_composition_mode e \<or> nest_free env m e) \<longrightarrow>
            fst (SetCompositionMode depth env composition_mode e w) \<noteq> None)"
proof -
  let ?r = "SetCompositionMode depth env composition_mode e w"
  have call: "call_SendCommand env command w = ((ok, out), w1)"
    using assms(2,3) by (simp add: call_SendCommand_def)
  have direct: "composition_mode = DIRECT \<Longrightarrow>
      ?r = and_then (UpdateAll depth env out e w1)
             (\<lambda>e2 w2. (Some (e2\<lparr>current_composition_mode := DIRECT\<rparr>), w2))"
    using call assms(1) by (simp add: SetCompositionMode_def SetCompositionMode_body_def)
  have other: "composition_mode \<noteq> DIRECT \<Longrightarrow>
      ?r = (Some (e\<lparr>current_composition_mode := composition_mode\<rparr>), w1)"
    using call assms(1) by (simp add: SetCompositionMode_def SetCompositionMode_body_def)
  have tr1: "trace w1 = trace w @ [Session_SendCommand command]"
    using assms(3) by (simp add: emit_def)
  have after: "extends_by update_event w1 (snd ?r)"
  proof (cases "composition_mode = DIRECT")
    case True
    have "extends_by update_event w1
            (snd (and_then (UpdateAll depth env out e w1)
                    (\<lambda>e2 w2. (Some (e2\<lparr>current_composition_mode := DIRECT\<rparr>), w2))))"
      by (rule and_then_extends [OF UpdateAll_extends]) (simp add: extends_by_refl)
    with True direct show ?thesis by simp
  next
    case False
    with other show ?thesis by (simp add: extends_by_refl)
  qed
  have first: "\<exists>rest. trace (snd ?r) = trace w @ Session_SendCommand command # rest"
    by (rule extends_by_first [OF tr1 after])
  have no_revert: "extends_by (\<lambda>ev. ev \<noteq> Session_SendCommand REVERT) w (snd ?r)"
    by (rule extends_by_mono [OF SetCompositionMode_extends]) (auto simp: update_event_simps)
  have mode: "\<forall>e'. fst ?r = Some e' \<longrightarrow> current_composition_mode e' = composition_mode"
  proof (cases "composition_mode = DIRECT")
    case True
    with direct show ?thesis
      by (auto simp: and_then_def split: prod.splits option.splits)
  next
    case False
    with other show ?thesis by simp
  qed
  have returns: "0 < depth \<and>
          (case out_mode out of
             None \<Rightarrow> True
           | Some m \<Rightarrow> m = current_composition_mode e \<or> nest_free env m e) \<longrightarrow>
            fst ?r \<noteq> None"
  proof (cases "composition_mode = DIRECT")
    case False
    with other show ?thesis by simp
  next
    case True
    show ?thesis
    proof
      assume a: "0 < depth \<and>
          (case out_mode out of
             None \<Rightarrow> True
           | Some m \<Rightarrow> m = current_composition_mode e \<or> nest_free env m e)"
      then obtain d where d: "depth = Suc d"
        by (cases depth) auto
      from a have "case out_mode out of
             None \<Rightarrow> True
           | Some m \<Rightarrow> m = current_composition_mode e \<or> nest_free env m e"
        by simp
      then have "fst (UpdateAll (Suc d) env out e w1) \<noteq> None"
        by (rule UpdateAll_returns)
      with True direct d show "fst ?r \<noteq> None"
        by (auto simp: and_then_def split: prod.splits option.splits)
    qed
  qed
  from direct other first no_revert mode returns show ?thesis
    by blast
qed

lemma SetCompositionMode_commands_example:
  "SetCompositionMode (Suc 0) example_env DIRECT
     (example_engine\<lparr>current_composition_mode := InputMode 0\<rparr>) example_world =
     (Some (example_engine\<lparr>current_composition_mode := DIRECT\<rparr>),
      \<lparr>sess = 1,
       trace = [Session_SendCommand SUBMIT,
                Host (ibus_engine_commit_text \<lparr>text_string = [12431], text_attrs = []\<rparr>),
                Host ibus_engine_hide_preedit_text,
                Host ibus_engine_hide_auxiliary_text,
                Host ibus_engine_hide_lookup_table]\<rparr>) \<and>
   SetCompositionMode 0 example_env (InputMode 0) example_engine example_world =
     (Some (example_engine\<lparr>current_composition_mode := InputMode 0\<rparr>),
      \<lparr>sess = 1, trace = [Session_SendCommand (SWITCH_INPUT_MODE (InputMode 0))]\<rparr>)"
proof -
  have 1: "SendCommand example_env (sess example_world) SUBMIT =
             (True, empty_output\<lparr>out_result := Some [12431]\<rparr>, 1)"
    by (simp add: example_defs)
  have 2: "SendCommand example_env (sess example_world) (SWITCH_INPUT_MODE (InputMode 0)) =
             (True, empty_output, 1)"
    by (simp add: example_defs)
  note a = SetCompositionMode_commands [where composition_mode = DIRECT and command = SUBMIT,
      OF _ 1 refl, of "Suc 0" "example_engine\<lparr>current_composition_mode := InputMode 0\<rparr>"]
  note b = SetCompositionMode_commands [where composition_mode = "InputMode 0"
      and command = "SWITCH_INPUT_MODE (InputMode 0)", OF _ 2 refl, of 0 example_engine]
  show ?thesis
    using a b
    by (simp add: example_defs and_then_def emit_def UpdateAll_body_def UpdateResult_def
        UpdatePreedit_def UpdateCandidates_def UpdateCompositionMode_body_def)
qed

text \<open>
  The bound on the nesting is no part of a result: a call that returns within a bound
  returns the same engine and world within every larger one. A call of the program
  returns exactly when it returns within some bound.
\<close>

lemma and_then_mono:
  assumes "fst (and_then r f) \<noteq> None"
    and "\<And>e1 w1. r = (Some e1, w1) \<Longrightarrow> fst (f e1 w1) \<noteq> None \<Longrightarrow> f' e1 w1 = f e1 w1"
  shows "and_then r f' = and_then r f"
proof (cases r)
  case (Pair a w1)
  show ?thesis
  proof (cases a)
    case None
    with Pair show ?thesis by (simp add: and_then_def)
  next
    case (Some e1)
    with Pair assms(1) have "fst (f e1 w1) \<noteq> None"
      by (simp add: and_then_def)
    with Pair Some have "f' e1 w1 = f e1 w1"
      by (intro assms(2)) simp_all
    with Pair Some show ?thesis by (simp add: and_then_def)
  qed
qed

lemma and_then_returns:
  "fst (and_then r f) \<noteq> None \<Longrightarrow> fst r \<noteq> None"
  by (cases r) (auto simp: and_then_def split: option.splits)

lemma SetCompositionMode_body_mono:
  assumes "\<And>out e w. fst (upd out e w) \<noteq> None \<Longrightarrow> upd' out e w = upd out e w"
    and "fst (SetCompositionMode_body upd env m e w) \<noteq> None"
  shows "SetCompositionMode_body upd' env m e w = SetCompositionMode_body upd env m e w"
proof (cases "m = DIRECT")
  case False
  then show ?thesis
    by (simp add: SetCompositionMode_body_def)
next
  case True
  obtain ok out w1 where c: "call_SendCommand env SUBMIT w = ((ok, out), w1)"
    by (metis prod.exhaust)
  with True assms(2)
  have "fst (and_then (upd out e w1)
               (\<lambda>e2 w2. (Some (e2\<lparr>current_composition_mode := m\<rparr>), w2))) \<noteq> None"
    by (simp add: SetCompositionMode_body_def)
  then have "fst (upd out e w1) \<noteq> None"
    by (rule and_then_returns)
  then have "upd' out e w1 = upd out e w1"
    by (rule assms(1))
  with True c show ?thesis
    by (simp add: SetCompositionMode_body_def)
qed

lemma radio_loop_mono:
  assumes "\<And>m e w. fst (sm m e w) \<noteq> None \<Longrightarrow> sm' m e w = sm m e w"
  shows "fst (radio_loop sm env name idxs e w) \<noteq> None \<Longrightarrow>
         radio_loop sm' env name idxs e w = radio_loop sm env name idxs e w"
proof (induction idxs arbitrary: e w)
  case Nil
  show ?case by simp
next
  case (Cons i rest)
  show ?case
  proof (cases "i \<ge> length (prop_composition_mode_sub_props e)")
    case True
    then show ?thesis by simp
  next
    case False
    show ?thesis
    proof (cases "item_key (prop_composition_mode_sub_props e ! i) = name")
      case diff: False
      then have ne: "name \<noteq> item_key (prop_composition_mode_sub_props e ! i)"
        by blast
      with False Cons.prems
      have "fst (radio_loop sm env name rest (set_item_state i PROP_STATE_UNCHECKED e) w) \<noteq> None"
        by simp
      then have "radio_loop sm' env name rest (set_item_state i PROP_STATE_UNCHECKED e) w =
                 radio_loop sm env name rest (set_item_state i PROP_STATE_UNCHECKED e) w"
        by (rule Cons.IH)
      with False ne show ?thesis by simp
    next
      case same: True
      show ?thesis
      proof (cases "item_data (prop_composition_mode_sub_props e ! i)")
        case None
        with False same Cons.prems
        have "fst (radio_loop sm env name rest (set_item_state i PROP_STATE_CHECKED e) w) \<noteq> None"
          by simp
        then have "radio_loop sm' env name rest (set_item_state i PROP_STATE_CHECKED e) w =
                   radio_loop sm env name rest (set_item_state i PROP_STATE_CHECKED e) w"
          by (rule Cons.IH)
        with False same None show ?thesis by simp
      next
        case (Some entry)
        let ?k = "\<lambda>loop e1 w1. loop
                      (set_item_state i PROP_STATE_CHECKED
                         (e1\<lparr>prop_composition_mode_icon :=
                               c_str_of_string (GetIconPath env (prop_icon entry))\<rparr>))
                      w1"
        from False same Some Cons.prems
        have ret: "fst (and_then (sm (prop_composition_mode entry) e w)
                      (?k (radio_loop sm env name rest))) \<noteq> None"
          by simp
        then have "fst (sm (prop_composition_mode entry) e w) \<noteq> None"
          by (rule and_then_returns)
        then have head: "sm' (prop_composition_mode entry) e w = sm (prop_composition_mode entry) e w"
          by (rule assms)
        have "and_then (sm (prop_composition_mode entry) e w) (?k (radio_loop sm' env name rest)) =
              and_then (sm (prop_composition_mode entry) e w) (?k (radio_loop sm env name rest))"
          using ret by (rule and_then_mono) (rule Cons.IH)
        with False same Some head show ?thesis by simp
      qed
    qed
  qed
qed

lemma PropertyActivate_body_mono:
  assumes "\<And>out e w. fst (upd out e w) \<noteq> None \<Longrightarrow> upd' out e w = upd out e w"
    and "fst (PropertyActivate_body upd env name st e w) \<noteq> None"
  shows "PropertyActivate_body upd' env name st e w = PropertyActivate_body upd env name st e w"
proof (cases "find_tool_item env name e")
  case (Some tool)
  then show ?thesis
    by (simp add: PropertyActivate_body_def)
next
  case None
  show ?thesis
  proof (cases "st = PROP_STATE_CHECKED")
    case False
    with None show ?thesis
      by (simp add: PropertyActivate_body_def)
  next
    case True
    let ?idxs = "[0..<length (prop_composition_mode_sub_props e)]"
    from None True assms(2)
    have "fst (and_then (radio_loop (SetCompositionMode_body upd env) env name ?idxs e w)
                 (\<lambda>e1 w1.
                    (Some e1,
                     emit (Host (ibus_engine_update_property (prop_composition_mode_icon e1)
                                  (prop_composition_mode_sub_props e1))) w1))) \<noteq> None"
      by (simp add: PropertyActivate_body_def)
    then have "fst (radio_loop (SetCompositionMode_body upd env) env name ?idxs e w) \<noteq> None"
      by (rule and_then_returns)
    then have "radio_loop (SetCompositionMode_body upd' env) env name ?idxs e w =
               radio_loop (SetCompositionMode_body upd env) env name ?idxs e w"
      by (rule radio_loop_mono [rotated]) (rule SetCompositionMode_body_mono [OF assms(1)])
    with None True show ?thesis
      by (simp add: PropertyActivate_body_def)
  qed
qed

lemma activate_loop_mono:
  assumes "\<And>key st e w. fst (act key st e w) \<noteq> None \<Longrightarrow> act' key st e w = act key st e w"
  shows "fst (activate_loop act m entries e w) \<noteq> None \<Longrightarrow>
         activate_loop act' m entries e w = activate_loop act m entries e w"
proof (induction entries arbitrary: e w)
  case Nil
  show ?case by simp
next
  case (Cons entry rest)
  show ?case
  proof (cases "prop_composition_mode entry = m")
    case False
    with Cons show ?thesis by simp
  next
    case True
    with Cons.prems
    have ret: "fst (and_then (act (prop_key entry) PROP_STATE_CHECKED e w) (activate_loop act m rest)) \<noteq> None"
      by simp
    then have "fst (act (prop_key entry) PROP_STATE_CHECKED e w) \<noteq> None"
      by (rule and_then_returns)
    then have head: "act' (prop_key entry) PROP_STATE_CHECKED e w = act (prop_key entry) PROP_STATE_CHECKED e w"
      by (rule assms)
    have "and_then (act (prop_key entry) PROP_STATE_CHECKED e w) (activate_loop act' m rest) =
          and_then (act (prop_key entry) PROP_STATE_CHECKED e w) (activate_loop act m rest)"
      using ret by (rule and_then_mono) (rule Cons.IH)
    with True head show ?thesis by simp
  qed
qed

lemma UpdateAll_body_mono:
  assumes "\<And>out e w. fst (upd out e w) \<noteq> None \<Longrightarrow> upd' out e w = upd out e w"
    and "fst (UpdateAll_body upd env out e w) \<noteq> None"
  shows "UpdateAll_body upd' env out e w = UpdateAll_body upd env out e w"
proof -
  obtain e3 w3 where c: "UpdateCandidates out e (UpdatePreedit out (UpdateResult out w)) = (e3, w3)"
    by (metis prod.exhaust)
  with assms(2) have ret: "fst (UpdateCompositionMode_body upd env out e3 w3) \<noteq> None"
    by (simp add: UpdateAll_body_def Let_def)
  have "UpdateCompositionMode_body upd' env out e3 w3 = UpdateCompositionMode_body upd env out e3 w3"
  proof (cases "out_mode out")
    case None
    then show ?thesis by (simp add: UpdateCompositionMode_body_def)
  next
    case (Some m)
    show ?thesis
    proof (cases "current_composition_mode e3 = m")
      case True
      with Some show ?thesis by (simp add: UpdateCompositionMode_body_def)
    next
      case False
      with Some ret
      have "fst (activate_loop (PropertyActivate_body upd env) m (kMozcEngineProperties env) e3 w3) \<noteq> None"
        by (simp add: UpdateCompositionMode_body_def)
      then have "activate_loop (PropertyActivate_body upd' env) m (kMozcEngineProperties env) e3 w3 =
                 activate_loop (PropertyActivate_body upd env) m (kMozcEngineProperties env) e3 w3"
        by (rule activate_loop_mono [rotated]) (rule PropertyActivate_body_mono [OF assms(1)])
      with Some False show ?thesis by (simp add: UpdateCompositionMode_body_def)
    qed
  qed
  with c show ?thesis
    by (simp add: UpdateAll_body_def Let_def)
qed

lemma UpdateAll_Suc:
  "fst (UpdateAll depth env out e w) \<noteq> None \<Longrightarrow>
     UpdateAll (Suc depth) env out e w = UpdateAll depth env out e w"
proof (induction depth arbitrary: out e w)
  case 0
  then show ?case by simp
next
  case (Suc depth)
  from Suc.prems have "fst (UpdateAll_body (UpdateAll depth env) env out e w) \<noteq> None"
    by simp
  then have "UpdateAll_body (UpdateAll (Suc depth) env) env out e w =
             UpdateAll_body (UpdateAll depth env) env out e w"
    by (rule UpdateAll_body_mono [rotated]) (rule Suc.IH)
  then show ?case by simp
qed

lemma UpdateAll_deeper:
  assumes "fst (UpdateAll depth env out e w) \<noteq> None"
  shows "UpdateAll (depth + k) env out e w = UpdateAll depth env out e w"
proof (induction k)
  case 0
  show ?case by simp
next
  case (Suc k)
  from assms Suc have "fst (UpdateAll (depth + k) env out e w) \<noteq> None"
    by simp
  then have "UpdateAll (Suc (depth + k)) env out e w = UpdateAll (depth + k) env out e w"
    by (rule UpdateAll_Suc)
  with Suc show ?case by simp
qed

lemma SetCompositionMode_deeper:
  assumes "fst (SetCompositionMode depth env m e w) \<noteq> None"
  shows "SetCompositionMode (depth + k) env m e w = SetCompositionMode depth env m e w"
  unfolding SetCompositionMode_def
  using assms [unfolded SetCompositionMode_def]
  by (rule SetCompositionMode_body_mono [rotated]) (rule UpdateAll_deeper)

text \<open>
  The session of \<open>direct_session_env\<close> answers every command with the mode \<open>DIRECT\<close>;
  the engine built for it starts in the first input mode, with the radio items
  \<open>Direct\<close> and \<open>Hiragana\<close>.
\<close>

lemma direct_session_simps:
  "\<not> OS_CHROMEOS direct_session_env"
  "SendCommand direct_session_env s command = (True, empty_output\<lparr>out_mode := Some DIRECT\<rparr>, Suc s)"
  "kMozcEngineProperties direct_session_env =
     [\<lparr>prop_composition_mode = DIRECT, prop_key = ''Direct'',
       prop_label = ''Direct input'', prop_icon = ''direct.png''\<rparr>,
      \<lparr>prop_composition_mode = InputMode 0, prop_key = ''Hiragana'',
       prop_label = ''Hiragana'', prop_icon = ''hiragana.png''\<rparr>]"
  by (simp_all add: direct_session_env_def example_env_def)

lemma direct_session_engine_simps:
  "current_composition_mode direct_session_engine = InputMode 0"
  "prop_composition_mode_sub_props direct_session_engine =
     [\<lparr>item_key = ''Direct'', item_state = PROP_STATE_UNCHECKED,
       item_data = Some \<lparr>prop_composition_mode = DIRECT, prop_key = ''Direct'',
                         prop_label = ''Direct input'', prop_icon = ''direct.png''\<rparr>\<rparr>,
      \<lparr>item_key = ''Hiragana'', item_state = PROP_STATE_CHECKED,
       item_data = Some \<lparr>prop_composition_mode = InputMode 0, prop_key = ''Hiragana'',
                         prop_label = ''Hiragana'', prop_icon = ''hiragana.png''\<rparr>\<rparr>]"
  "prop_mozc_tool direct_session_engine =
     Some [\<lparr>tool_item_key = ''config_dialog'',
            tool_item_data = \<lparr>tool_mode = ''config_dialog'', tool_label = ''Properties''\<rparr>\<rparr>]"
  by (simp_all add: direct_session_engine_def MozcEngine_constructor_def direct_session_env_def
      example_env_def)

lemma SetCompositionMode_body_DIRECT:
  "SetCompositionMode_body upd direct_session_env DIRECT e w =
     and_then (upd (empty_output\<lparr>out_mode := Some DIRECT\<rparr>) e
                 (emit (Session_SendCommand SUBMIT) (w\<lparr>sess := Suc (sess w)\<rparr>)))
       (\<lambda>e2 w2. (Some (e2\<lparr>current_composition_mode := DIRECT\<rparr>), w2))"
  by (simp add: SetCompositionMode_body_def call_SendCommand_def direct_session_simps)

text \<open>
  Applying that answer to the engine, which is not in the mode \<open>DIRECT\<close>, activates the
  item \<open>Direct\<close>, whose first act is the next \<open>SetCompositionMode\<close> for \<open>DIRECT\<close>: if
  that call does not return, the update does not either.
\<close>

lemma UpdateAll_body_reenters:
  assumes "fst (SetCompositionMode_body upd direct_session_env DIRECT
                  (direct_session_engine\<lparr>unique_candidate_ids := []\<rparr>)
                  (emit (Host ibus_engine_hide_lookup_table)
                     (emit (Host ibus_engine_hide_auxiliary_text)
                        (emit (Host ibus_engine_hide_preedit_text) w)))) = None"
  shows "UpdateAll_body upd direct_session_env (empty_output\<lparr>out_mode := Some DIRECT\<rparr>)
           (direct_session_engine\<lparr>unique_candidate_ids := ids\<rparr>) w =
         (None, snd (SetCompositionMode_body upd direct_session_env DIRECT
                  (direct_session_engine\<lparr>unique_candidate_ids := []\<rparr>)
                  (emit (Host ibus_engine_hide_lookup_table)
                     (emit (Host ibus_engine_hide_auxiliary_text)
                        (emit (Host ibus_engine_hide_preedit_text) w)))))"
proof -
  let ?w3 = "emit (Host ibus_engine_hide_lookup_table)
                     (emit (Host ibus_engine_hide_auxiliary_text)
                        (emit (Host ibus_engine_hide_preedit_text) w))"
  let ?e3 = "direct_session_engine\<lparr>unique_candidate_ids := []\<rparr>"
  obtain w' where r: "SetCompositionMode_body upd direct_session_env DIRECT ?e3 ?w3 = (None, w')"
    using assms by (cases "SetCompositionMode_body upd direct_session_env DIRECT ?e3 ?w3") simp
  have "PropertyActivate_body upd direct_session_env ''Direct'' PROP_STATE_CHECKED ?e3 ?w3 = (None, w')"
    by (simp add: PropertyActivate_body_def find_tool_item_def direct_session_simps
        direct_session_engine_simps upt_rec r and_then_def)
  then have "UpdateCompositionMode_body upd direct_session_env (empty_output\<lparr>out_mode := Some DIRECT\<rparr>)
               ?e3 ?w3 = (None, w')"
    by (simp add: UpdateCompositionMode_body_def direct_session_simps direct_session_engine_simps
        and_then_def)
  then show ?thesis
    using r
    by (simp add: UpdateAll_body_def UpdateResult_def UpdatePreedit_def UpdateCandidates_def
        empty_output_def Let_def)
qed

lemma SetCompositionMode_body_reenters:
  "fst (SetCompositionMode_body (UpdateAll depth direct_session_env) direct_session_env DIRECT
          (direct_session_engine\<lparr>unique_candidate_ids := ids\<rparr>) w) = None \<and>
   submit_calls (trace (snd (SetCompositionMode_body (UpdateAll depth direct_session_env)
                               direct_session_env DIRECT
                               (direct_session_engine\<lparr>unique_candidate_ids := ids\<rparr>) w))) =
     submit_calls (trace w) + Suc depth"
proof (induction depth arbitrary: ids w)
  case 0
  show ?case
    by (simp add: SetCompositionMode_body_DIRECT and_then_def emit_def submit_calls_def)
next
  case (Suc depth)
  let ?w1 = "emit (Session_SendCommand SUBMIT) (w\<lparr>sess := Suc (sess w)\<rparr>)"
  let ?w3 = "emit (Host ibus_engine_hide_lookup_table)
                     (emit (Host ibus_engine_hide_auxiliary_text)
                        (emit (Host ibus_engine_hide_preedit_text) ?w1))"
  let ?inner = "SetCompositionMode_body (UpdateAll depth direct_session_env) direct_session_env DIRECT
                  (direct_session_engine\<lparr>unique_candidate_ids := []\<rparr>) ?w3"
  from Suc.IH [of "[]" ?w3]
  have none: "fst ?inner = None"
    and count: "submit_calls (trace (snd ?inner)) = submit_calls (trace ?w3) + Suc depth"
    by simp_all
  have "UpdateAll (Suc depth) direct_session_env (empty_output\<lparr>out_mode := Some DIRECT\<rparr>)
          (direct_session_engine\<lparr>unique_candidate_ids := ids\<rparr>) ?w1 = (None, snd ?inner)"
    using UpdateAll_body_reenters [OF none] by simp
  then have "SetCompositionMode_body (UpdateAll (Suc depth) direct_session_env) direct_session_env DIRECT
          (direct_session_engine\<lparr>unique_candidate_ids := ids\<rparr>) w = (None, snd ?inner)"
    by (simp add: SetCompositionMode_body_DIRECT and_then_def)
  moreover have "submit_calls (trace ?w3) = Suc (submit_calls (trace w))"
    by (simp add: emit_def submit_calls_def)
  ultimately show ?case
    using count by simp
qed

text \<open>
  C4. The claim says that every call of \<open>SetCompositionMode\<close> sets the mode after issuing
  the command. The code departs from it where the session answers \<open>SUBMIT\<close> with the
  mode \<open>DIRECT\<close> while the engine is in another mode: applying that answer calls
  \<open>SetCompositionMode\<close> for \<open>DIRECT\<close> again before the assignment of the first call is
  reached, and so on without end. Whatever bound is put on the nesting, the call for
  \<open>DIRECT\<close> on the engine as constructed does not return within it, and by then has sent
  one \<open>SUBMIT\<close> more than the bound: the mode is never set.
\<close>

theorem SetCompositionMode_reenters:
  "\<forall>depth.
     fst (SetCompositionMode depth direct_session_env DIRECT direct_session_engine example_world) = None \<and>
     submit_calls (trace (snd (SetCompositionMode depth direct_session_env DIRECT
                                 direct_session_engine example_world))) = Suc depth"
proof
  fix depth
  have e: "direct_session_engine = direct_session_engine\<lparr>unique_candidate_ids := []\<rparr>"
    by (simp add: direct_session_engine_def MozcEngine_constructor_def)
  have "submit_calls (trace example_world) = 0"
    by (simp add: example_world_def submit_calls_def)
  with SetCompositionMode_body_reenters [of depth "[]" example_world]
  show "fst (SetCompositionMode depth direct_session_env DIRECT direct_session_engine example_world) = None \<and>
     submit_calls (trace (snd (SetCompositionMode depth direct_session_env DIRECT
                                 direct_session_engine example_world))) = Suc depth"
    unfolding SetCompositionMode_def using e by simp
qed

text \<open>
  Where the session reports \<open>DIRECT\<close> once and then no mode, the second, nested call
  returns and so does the first: two \<open>SUBMIT\<close> commands are sent and the mode is
  \<open>DIRECT\<close> in the end, within every bound of two or more.
\<close>

lemma SetCompositionMode_reenters_once:
  "fst (SetCompositionMode 1 direct_once_env DIRECT
          (MozcEngine_constructor direct_once_env 1000) example_world) = None \<and>
   (\<forall>k. map_option current_composition_mode
          (fst (SetCompositionMode (2 + k) direct_once_env DIRECT
                  (MozcEngine_constructor direct_once_env 1000) example_world)) = Some DIRECT \<and>
        submit_calls (trace (snd (SetCompositionMode (2 + k) direct_once_env DIRECT
                  (MozcEngine_constructor direct_once_env 1000) example_world))) = 2)"
proof -
  note defs = direct_once_env_def direct_session_env_def example_defs SetCompositionMode_def
      SetCompositionMode_body_def call_SendCommand_def and_then_def emit_def UpdateAll_body_def
      UpdateResult_def UpdatePreedit_def UpdateCandidates_def UpdateCompositionMode_body_def
      PropertyActivate_body_def find_tool_item_def set_item_state_def upt_rec numeral_2_eq_2 Let_def
  let ?call = "\<lambda>depth. SetCompositionMode depth direct_once_env DIRECT
                  (MozcEngine_constructor direct_once_env 1000) example_world"
  have one: "fst (?call 1) = None"
    by (simp add: defs)
  have two: "map_option current_composition_mode (fst (?call 2)) = Some DIRECT"
    "submit_calls (trace (snd (?call 2))) = 2"
    by (simp_all add: defs submit_calls_def)
  from two(1) have "fst (?call 2) \<noteq> None"
    by auto
  then have "\<And>k. ?call (2 + k) = ?call 2"
    by (rule SetCompositionMode_deeper)
  with one two show ?thesis
    by simp
qed

subsection \<open>Sync calls of one focus change\<close>

lemma extends_by_no_sync:
  assumes "extends_by (\<lambda>ev. ev \<noteq> Session_SyncData) w w'"
  shows "sync_calls (trace w') = sync_calls (trace w)"
proof -
  from assms obtain evs where evs: "trace w' = trace w @ evs"
    and no: "list_all (\<lambda>ev. ev \<noteq> Session_SyncData) evs"
    by (auto simp: extends_by_def)
  from no have "filter (\<lambda>ev. ev = Session_SyncData) evs = []"
    by (induction evs) auto
  with evs show ?thesis
    by (simp add: sync_calls_def)
qed

lemma RevertSession_extends:
  "extends_by (\<lambda>ev. ev \<noteq> Session_SyncData) w (snd (RevertSession depth env e w))"
proof -
  let ?P = "\<lambda>ev. ev \<noteq> Session_SyncData"
  obtain ok out w1 where c: "call_SendCommand env REVERT w = ((ok, out), w1)"
    by (metis prod.exhaust)
  have 1: "extends_by ?P w w1"
    using call_SendCommand_extends [of ?P REVERT w env] c by simp
  show ?thesis
  proof (cases ok)
    case False
    with c 1 show ?thesis
      by (simp add: RevertSession_def extends_by_emit_after)
  next
    case True
    have "extends_by ?P w1 (snd (UpdateAll depth env out e w1))"
      by (rule extends_by_mono [OF UpdateAll_extends]) (auto simp: update_event_simps)
    with 1 have "extends_by ?P w (snd (UpdateAll depth env out e w1))"
      by (rule extends_by_trans)
    with True c show ?thesis
      by (simp add: RevertSession_def)
  qed
qed

lemma SyncData_sync_calls:
  "sync_calls (trace (snd (SyncData env t force e w))) \<le> sync_calls (trace w) + 1"
  by (simp add: SyncData_def emit_def sync_calls_def)

lemma SyncData_not_due:
  assumes "unat t < unat (last_sync_time e) + 300"
  shows "SyncData env t False e w = (e, w)"
proof -
  have "\<not> (t \<ge> last_sync_time e \<and> t - last_sync_time e \<ge> kSyncDataInterval)"
  proof
    assume a: "t \<ge> last_sync_time e \<and> t - last_sync_time e \<ge> kSyncDataInterval"
    then have "unat (t - last_sync_time e) = unat t - unat (last_sync_time e)"
      by (simp add: unat_sub)
    moreover from a have "unat kSyncDataInterval \<le> unat (t - last_sync_time e)"
      by (simp add: word_le_nat_alt)
    ultimately show False
      using assms by (simp add: kSyncDataInterval_def)
  qed
  then show ?thesis
    by (auto simp: SyncData_def)
qed

lemma FocusOut_sync_calls:
  "sync_calls (trace (snd (FocusOut depth env t e w))) \<le> sync_calls (trace w) + 1"
proof (cases "RevertSession depth env e w")
  case (Pair r w1)
  have same: "sync_calls (trace w1) = sync_calls (trace w)"
    using extends_by_no_sync [OF RevertSession_extends, of depth env e w] Pair by simp
  show ?thesis
  proof (cases r)
    case None
    with Pair same show ?thesis
      by (simp add: FocusOut_def and_then_def)
  next
    case (Some e1)
    obtain e2 w2 where s: "SyncData env t False e1 w1 = (e2, w2)"
      by (metis prod.exhaust)
    have "sync_calls (trace (snd (SyncData env t False e1 w1))) \<le> sync_calls (trace w1) + 1"
      by (rule SyncData_sync_calls)
    with s same have "sync_calls (trace w2) \<le> sync_calls (trace w) + 1"
      by simp
    with Pair Some s show ?thesis
      by (simp add: FocusOut_def and_then_def)
  qed
qed

lemma FocusOut_not_due:
  assumes "unat t < unat (last_sync_time e) + 300"
    and "\<And>e1 w1. RevertSession depth env e w = (Some e1, w1) \<Longrightarrow> last_sync_time e1 = last_sync_time e"
  shows "sync_calls (trace (snd (FocusOut depth env t e w))) = sync_calls (trace w)"
proof (cases "RevertSession depth env e w")
  case (Pair r w1)
  have same: "sync_calls (trace w1) = sync_calls (trace w)"
    using extends_by_no_sync [OF RevertSession_extends, of depth env e w] Pair by simp
  show ?thesis
  proof (cases r)
    case None
    with Pair same show ?thesis
      by (simp add: FocusOut_def and_then_def)
  next
    case (Some e1)
    from Pair Some have "last_sync_time e1 = last_sync_time e"
      by (intro assms(2)) simp
    with assms(1) have "unat t < unat (last_sync_time e1) + 300"
      by simp
    then have "SyncData env t False e1 w1 = (e1, w1)"
      by (rule SyncData_not_due)
    with Pair Some same show ?thesis
      by (simp add: FocusOut_def and_then_def)
  qed
qed

subsection \<open>What applying an Output leaves alone\<close>

lemma unaffected_simps:
  assumes "unaffected f"
  shows "f (set_item_state i st e) = f e"
    and "f (e\<lparr>prop_composition_mode_icon := icon\<rparr>) = f e"
    and "f (e\<lparr>current_composition_mode := m\<rparr>) = f e"
    and "f (e\<lparr>unique_candidate_ids := ids\<rparr>) = f e"
  using assms by (simp_all add: unaffected_def)

lemma unaffected_sync_fields: "unaffected sync_fields"
  by (simp add: unaffected_def sync_fields_def set_item_state_def)

lemma unaffected_item_identities: "unaffected item_identities"
  by (simp add: unaffected_def item_identities_set_item_state item_identities_simps)

lemma and_then_keeps:
  assumes "fst (and_then r f) = Some e'"
    and "\<And>e1 w1. r = (Some e1, w1) \<Longrightarrow> g e1 = g e"
    and "\<And>e1 w1. r = (Some e1, w1) \<Longrightarrow> fst (f e1 w1) = Some e' \<Longrightarrow> g e' = g e1"
  shows "g e' = g e"
proof (cases r)
  case (Pair a w1)
  show ?thesis
  proof (cases a)
    case None
    with Pair assms(1) show ?thesis
      by (simp add: and_then_def)
  next
    case (Some e1)
    with Pair assms(1) have "fst (f e1 w1) = Some e'"
      by (simp add: and_then_def)
    with Pair Some assms(2,3) show ?thesis
      by simp
  qed
qed

lemma SetCompositionMode_body_keeps:
  assumes un: "unaffected f"
    and hyp: "\<And>out e w e'. fst (upd out e w) = Some e' \<Longrightarrow> f e' = f e"
      "fst (SetCompositionMode_body upd env m e w) = Some e'"
  shows "f e' = f e"
proof (cases "m = DIRECT")
  case True
  obtain ok out w1 where c: "call_SendCommand env SUBMIT w = ((ok, out), w1)"
    by (metis prod.exhaust)
  from True c hyp(2)
  have r: "fst (and_then (upd out e w1)
                 (\<lambda>e2 w2. (Some (e2\<lparr>current_composition_mode := m\<rparr>), w2))) = Some e'"
    by (simp add: SetCompositionMode_body_def)
  show ?thesis
  proof (rule and_then_keeps [where g = f, OF r])
    fix e1 w2
    assume "upd out e w1 = (Some e1, w2)"
    then show "f e1 = f e"
      by (intro hyp(1) [of out e w1]) simp
  next
    fix e1 w2
    assume "fst (Some (e1\<lparr>current_composition_mode := m\<rparr>), w2) = Some e'"
    then show "f e' = f e1"
      by (auto simp: unaffected_simps [OF un])
  qed
next
  case False
  with hyp(2) show ?thesis
    by (auto simp: SetCompositionMode_body_def unaffected_simps [OF un] split: prod.splits)
qed

lemma radio_loop_keeps:
  assumes un: "unaffected f"
    and hyp: "\<And>m e w e'. fst (set_mode m e w) = Some e' \<Longrightarrow> f e' = f e"
  shows "fst (radio_loop set_mode env name idxs e w) = Some e' \<Longrightarrow> f e' = f e"
proof (induction idxs arbitrary: e w)
  case Nil
  then show ?case by simp
next
  case (Cons i rest)
  show ?case
  proof (cases "i \<ge> length (prop_composition_mode_sub_props e)")
    case True
    with Cons.prems show ?thesis by simp
  next
    case False
    show ?thesis
    proof (cases "item_key (prop_composition_mode_sub_props e ! i) = name")
      case diff: False
      then have "name \<noteq> item_key (prop_composition_mode_sub_props e ! i)"
        by blast
      with False Cons.prems
      have "fst (radio_loop set_mode env name rest (set_item_state i PROP_STATE_UNCHECKED e) w) = Some e'"
        by simp
      then have "f e' = f (set_item_state i PROP_STATE_UNCHECKED e)"
        by (rule Cons.IH)
      then show ?thesis
        by (simp add: unaffected_simps [OF un])
    next
      case same: True
      show ?thesis
      proof (cases "item_data (prop_composition_mode_sub_props e ! i)")
        case None
        with False same Cons.prems
        have "fst (radio_loop set_mode env name rest (set_item_state i PROP_STATE_CHECKED e) w) = Some e'"
          by simp
        then have "f e' = f (set_item_state i PROP_STATE_CHECKED e)"
          by (rule Cons.IH)
        then show ?thesis
          by (simp add: unaffected_simps [OF un])
      next
        case (Some entry)
        with False same Cons.prems
        have r: "fst (and_then (set_mode (prop_composition_mode entry) e w)
                  (\<lambda>e1 w1. radio_loop set_mode env name rest
                      (set_item_state i PROP_STATE_CHECKED
                         (e1\<lparr>prop_composition_mode_icon := c_str_of_string (GetIconPath env (prop_icon entry))\<rparr>))
                      w1)) = Some e'"
          by simp
        show ?thesis
        proof (rule and_then_keeps [where g = f, OF r])
          fix e1 w1
          assume "set_mode (prop_composition_mode entry) e w = (Some e1, w1)"
          then show "f e1 = f e"
            by (intro hyp [of "prop_composition_mode entry" e w]) simp
        next
          fix e1 w1
          assume "fst (radio_loop set_mode env name rest
                      (set_item_state i PROP_STATE_CHECKED
                         (e1\<lparr>prop_composition_mode_icon := c_str_of_string (GetIconPath env (prop_icon entry))\<rparr>))
                      w1) = Some e'"
          then have "f e' = f (set_item_state i PROP_STATE_CHECKED
                         (e1\<lparr>prop_composition_mode_icon := c_str_of_string (GetIconPath env (prop_icon entry))\<rparr>))"
            by (rule Cons.IH)
          then show "f e' = f e1"
            by (simp add: unaffected_simps [OF un])
        qed
      qed
    qed
  qed
qed

lemma PropertyActivate_body_keeps:
  fixes w :: "'s world"
  assumes un: "unaffected f"
    and hyp: "\<And>out e w e'. fst (upd out e w) = Some e' \<Longrightarrow> f e' = f e"
      "fst (PropertyActivate_body upd env name st e w) = Some e'"
  shows "f e' = f e"
proof (cases "find_tool_item env name e")
  case (Some tool)
  with hyp(2) show ?thesis
    by (auto simp: PropertyActivate_body_def Let_def split: prod.splits)
next
  case None
  show ?thesis
  proof (cases "st = PROP_STATE_CHECKED")
    case False
    with None hyp(2) show ?thesis
      by (simp add: PropertyActivate_body_def)
  next
    case True
    with None hyp(2)
    have r: "fst (and_then
              (radio_loop (SetCompositionMode_body upd env) env name
                 [0..<length (prop_composition_mode_sub_props e)] e w)
              (\<lambda>e1 w1.
                 (Some e1,
                  emit (Host (ibus_engine_update_property (prop_composition_mode_icon e1)
                               (prop_composition_mode_sub_props e1))) w1))) = Some e'"
      by (simp add: PropertyActivate_body_def)
    show ?thesis
    proof (rule and_then_keeps [where g = f, OF r])
      fix e1 w1
      assume "radio_loop (SetCompositionMode_body upd env) env name
                 [0..<length (prop_composition_mode_sub_props e)] e w = (Some e1, w1)"
      then have "fst (radio_loop (SetCompositionMode_body upd env) env name
                 [0..<length (prop_composition_mode_sub_props e)] e w) = Some e1"
        by simp
      then show "f e1 = f e"
        by (rule radio_loop_keeps [OF un, rotated])
          (rule SetCompositionMode_body_keeps [OF un, rotated], assumption, erule hyp(1))
    next
      fix e1 :: engine and w1 :: "'s world"
      assume "fst (Some e1,
                  emit (Host (ibus_engine_update_property (prop_composition_mode_icon e1)
                               (prop_composition_mode_sub_props e1))) w1) = Some e'"
      then show "f e' = f e1"
        by simp
    qed
  qed
qed

lemma activate_loop_keeps:
  assumes un: "unaffected f"
    and hyp: "\<And>key st e w e'. fst (activate key st e w) = Some e' \<Longrightarrow> f e' = f e"
  shows "fst (activate_loop activate m entries e w) = Some e' \<Longrightarrow> f e' = f e"
proof (induction entries arbitrary: e w)
  case Nil
  then show ?case by simp
next
  case (Cons entry rest)
  show ?case
  proof (cases "prop_composition_mode entry = m")
    case False
    with Cons.prems show ?thesis
      by (simp add: Cons.IH)
  next
    case True
    with Cons.prems
    have r: "fst (and_then (activate (prop_key entry) PROP_STATE_CHECKED e w)
                    (activate_loop activate m rest)) = Some e'"
      by simp
    show ?thesis
    proof (rule and_then_keeps [where g = f, OF r])
      fix e1 w1
      assume "activate (prop_key entry) PROP_STATE_CHECKED e w = (Some e1, w1)"
      then show "f e1 = f e"
        by (intro hyp [of "prop_key entry" PROP_STATE_CHECKED e w]) simp
    next
      fix e1 w1
      assume "fst (activate_loop activate m rest e1 w1) = Some e'"
      then show "f e' = f e1"
        by (rule Cons.IH)
    qed
  qed
qed

lemma UpdateCompositionMode_body_keeps:
  assumes un: "unaffected f"
    and hyp: "\<And>out e w e'. fst (upd out e w) = Some e' \<Longrightarrow> f e' = f e"
      "fst (UpdateCompositionMode_body upd env out e w) = Some e'"
  shows "f e' = f e"
proof (cases "out_mode out")
  case None
  with hyp(2) show ?thesis
    by (simp add: UpdateCompositionMode_body_def)
next
  case (Some m)
  show ?thesis
  proof (cases "current_composition_mode e = m")
    case True
    with Some hyp(2) show ?thesis
      by (simp add: UpdateCompositionMode_body_def)
  next
    case False
    with Some hyp(2)
    have "fst (activate_loop (PropertyActivate_body upd env) m (kMozcEngineProperties env) e w) = Some e'"
      by (simp add: UpdateCompositionMode_body_def)
    then show ?thesis
      by (rule activate_loop_keeps [OF un, rotated])
        (rule PropertyActivate_body_keeps [OF un, rotated], assumption, erule hyp(1))
  qed
qed

lemma UpdateCandidates_keeps:
  assumes un: "unaffected f"
  shows "f (fst (UpdateCandidates out e w)) = f e"
  by (simp add: UpdateCandidates_def Let_def unaffected_simps [OF un] split: option.splits)

lemma UpdateAll_body_keeps:
  assumes un: "unaffected f"
    and hyp: "\<And>out e w e'. fst (upd out e w) = Some e' \<Longrightarrow> f e' = f e"
      "fst (UpdateAll_body upd env out e w) = Some e'"
  shows "f e' = f e"
proof -
  obtain e3 w3 where c: "UpdateCandidates out e (UpdatePreedit out (UpdateResult out w)) = (e3, w3)"
    by (metis prod.exhaust)
  with hyp(2) have "fst (UpdateCompositionMode_body upd env out e3 w3) = Some e'"
    by (simp add: UpdateAll_body_def Let_def)
  then have "f e' = f e3"
    by (rule UpdateCompositionMode_body_keeps [OF un, rotated]) (erule hyp(1))
  moreover have "f e3 = f e"
    using UpdateCandidates_keeps [OF un, of out e "UpdatePreedit out (UpdateResult out w)"] c by simp
  ultimately show ?thesis by simp
qed

lemma UpdateAll_keeps:
  assumes un: "unaffected f"
  shows "fst (UpdateAll depth env out e w) = Some e' \<Longrightarrow> f e' = f e"
proof (induction depth arbitrary: out e w e')
  case 0
  then show ?case by simp
next
  case (Suc depth)
  from Suc.prems have "fst (UpdateAll_body (UpdateAll depth env) env out e w) = Some e'"
    by simp
  then show ?case
    by (rule UpdateAll_body_keeps [OF un, rotated]) (rule Suc.IH)
qed

lemma RevertSession_keeps:
  assumes un: "unaffected f"
    and hyp: "fst (RevertSession depth env e w) = Some e'"
  shows "f e' = f e"
proof -
  obtain ok out w1 where c: "call_SendCommand env REVERT w = ((ok, out), w1)"
    by (metis prod.exhaust)
  show ?thesis
  proof (cases ok)
    case False
    with c hyp show ?thesis
      by (simp add: RevertSession_def)
  next
    case True
    with c hyp have "fst (UpdateAll depth env out e w1) = Some e'"
      by (simp add: RevertSession_def)
    then show ?thesis
      by (rule UpdateAll_keeps [OF un])
  qed
qed

text \<open>
  The engine as constructed has a session, and no update takes it away or makes a
  nest possible that was not.
\<close>

lemma constructor_session: "\<not> session_is_null (MozcEngine_constructor env t)"
  by (simp add: MozcEngine_constructor_def)

lemma UpdateAll_session:
  "fst (UpdateAll depth env out e w) = Some e' \<Longrightarrow> session_is_null e' = session_is_null e"
  using UpdateAll_keeps [OF unaffected_sync_fields, of depth env out e w e']
  by (simp add: sync_fields_def)

lemma UpdateAll_nest_free:
  assumes "fst (UpdateAll depth env out e w) = Some e'"
  shows "nest_free env m e' = nest_free env m e"
  by (rule nest_free_cong) (rule UpdateAll_keeps [OF unaffected_item_identities assms])

subsection \<open>The debounce across focus changes and at teardown\<close>

text \<open>
  C6. When a \<open>FocusOut\<close> has returned and the next one comes less than 300 seconds
  after the \<open>last_sync_time\<close> it left, the first appended at most one \<open>syncData\<close>
  call and the second appends none. The destructor's forced sync appends exactly one
  \<open>syncData\<close> call and records the time, whatever the time is.
\<close>

theorem FocusOut_debounced:
  fixes env :: "'s env"
  shows
  "(FocusOut depth env t1 e w = (Some e1, w1) \<and> unat t2 < unat (last_sync_time e1) + 300 \<longrightarrow>
      sync_calls (trace w1) \<le> sync_calls (trace w) + 1 \<and>
      sync_calls (trace (snd (FocusOut depth' env t2 e1 w1))) = sync_calls (trace w1)) \<and>
   (\<not> session_is_null e \<longrightarrow>
      MozcEngine_destructor env t e w =
        (e\<lparr>last_sync_time := t\<rparr>,
         \<lparr>sess = SyncData_session env (sess w), trace = trace w @ [Session_SyncData]\<rparr>) \<and>
      sync_calls (trace (snd (MozcEngine_destructor env t e w))) = sync_calls (trace w) + 1)"
proof (intro conjI impI)
  assume a: "FocusOut depth env t1 e w = (Some e1, w1) \<and> unat t2 < unat (last_sync_time e1) + 300"
  show "sync_calls (trace w1) \<le> sync_calls (trace w) + 1"
    using FocusOut_sync_calls [of depth env t1 e w] a by simp
  have "\<And>e2 w2. RevertSession depth' env e1 w1 = (Some e2, w2) \<Longrightarrow> last_sync_time e2 = last_sync_time e1"
  proof -
    fix e2 w2
    assume "RevertSession depth' env e1 w1 = (Some e2, w2)"
    then have "fst (RevertSession depth' env e1 w1) = Some e2"
      by simp
    then have "sync_fields e2 = sync_fields e1"
      by (rule RevertSession_keeps [OF unaffected_sync_fields])
    then show "last_sync_time e2 = last_sync_time e1"
      by (simp add: sync_fields_def)
  qed
  then have keep: "\<And>e2 w2. RevertSession depth' env e1 w1 = (Some e2, w2) \<Longrightarrow>
      last_sync_time e2 = last_sync_time e1" .
  from a have near: "unat t2 < unat (last_sync_time e1) + 300"
    by simp
  show "sync_calls (trace (snd (FocusOut depth' env t2 e1 w1))) = sync_calls (trace w1)"
    by (rule FocusOut_not_due [OF near]) (rule keep)
next
  assume "\<not> session_is_null e"
  then show "MozcEngine_destructor env t e w =
        (e\<lparr>last_sync_time := t\<rparr>,
         \<lparr>sess = SyncData_session env (sess w), trace = trace w @ [Session_SyncData]\<rparr>)"
    by (simp add: MozcEngine_destructor_def SyncData_def emit_def)
next
  assume "\<not> session_is_null e"
  then show "sync_calls (trace (snd (MozcEngine_destructor env t e w))) = sync_calls (trace w) + 1"
    by (simp add: MozcEngine_destructor_def SyncData_def emit_def sync_calls_def)
qed

lemmas engine_defs =
  FocusOut_def RevertSession_def call_SendCommand_def and_then_def emit_def SyncData_def
  UpdateAll_body_def UpdateResult_def UpdatePreedit_def UpdateCandidates_def
  UpdateCompositionMode_body_def kSyncDataInterval_def MozcEngine_destructor_def

theorem FocusOut_debounced_witness:
  "FocusOut (Suc 0) example_env 1400 example_engine example_world =
     (Some (example_engine\<lparr>last_sync_time := 1400\<rparr>),
      \<lparr>sess = 2,
       trace = [Session_SendCommand REVERT, Host ibus_engine_hide_preedit_text,
                Host ibus_engine_hide_auxiliary_text, Host ibus_engine_hide_lookup_table,
                Session_SyncData]\<rparr>) \<and>
   sync_calls (trace (snd (FocusOut (Suc 0) example_env 1500 (example_engine\<lparr>last_sync_time := 1400\<rparr>)
      \<lparr>sess = 2,
       trace = [Session_SendCommand REVERT, Host ibus_engine_hide_preedit_text,
                Host ibus_engine_hide_auxiliary_text, Host ibus_engine_hide_lookup_table,
                Session_SyncData]\<rparr>))) = 1 \<and>
   sync_calls (trace (snd (MozcEngine_destructor example_env 1001 example_engine example_world))) = 1"
proof -
  let ?e1 = "example_engine\<lparr>last_sync_time := 1400\<rparr>"
  let ?w1 = "\<lparr>sess = 2 :: nat,
       trace = [Session_SendCommand REVERT, Host ibus_engine_hide_preedit_text,
                Host ibus_engine_hide_auxiliary_text, Host ibus_engine_hide_lookup_table,
                Session_SyncData]\<rparr>"
  have first: "FocusOut (Suc 0) example_env 1400 example_engine example_world = (Some ?e1, ?w1)"
    by (simp add: example_defs engine_defs)
  have near: "unat (1500 :: 64 word) < unat (last_sync_time ?e1) + 300"
    by simp
  have alive: "\<not> session_is_null example_engine"
    by (simp add: example_defs)
  have "sync_calls (trace ?w1) = 1"
    by (simp add: sync_calls_def)
  with first near alive
    FocusOut_debounced [of "Suc 0" example_env 1400 example_engine example_world ?e1 ?w1 1500 "Suc 0" 1001]
  show ?thesis
    by (simp add: example_world_def sync_calls_def)
qed

subsection \<open>Keys in DIRECT mode\<close>

lemma UpdatePreeditMethod_mode:
  "current_composition_mode (fst (UpdatePreeditMethod env e w)) = current_composition_mode e"
  by (simp add: UpdatePreeditMethod_def Let_def split: prod.splits option.splits)

lemma UpdatePreeditMethod_session_calls:
  "filter is_session_call (trace (snd (UpdatePreeditMethod env e w))) =
     filter is_session_call (trace w) @ [Session_GetConfig]"
  by (simp add: UpdatePreeditMethod_def Let_def emit_def is_session_call_def
        split: prod.splits option.splits)

text \<open>
  C1, as the code has it. Take a key event that is not a release, in \<open>DIRECT\<close> mode,
  that translates to \<open>key\<close>. Under \<open>OS_CHROMEOS\<close> every such event first refreshes
  the preedit method with one \<open>GetConfig\<close> call on the session; other builds do not.
  If \<open>key\<close> is not one of the keys that turn the engine on, the event is answered
  "not consumed" right after the translation, and the only session call made is that
  \<open>GetConfig\<close> (none at all without \<open>OS_CHROMEOS\<close>): no \<open>SendKey\<close>, no
  \<open>SendCommand\<close>. If it is one of them, \<open>SendKey\<close> of \<open>key\<close> follows the translation.
\<close>

theorem ProcessKeyEvent_direct:
  fixes env :: "'s env"
  assumes "modifiers AND IBUS_RELEASE_MASK env = 0"
    and "(if OS_CHROMEOS env then UpdatePreeditMethod env e w else (e, w)) = (e1, w1)"
    and "Translate env keyval keycode modifiers (preedit_method_member e1) (layout_is_jp env) = Some key"
    and "current_composition_mode e = DIRECT"
    and "translation = KeyTranslator_Translate keyval keycode modifiers (preedit_method_member e1) (layout_is_jp env)"
  shows "(\<not> IsTurnOnInDirectMode env key \<longrightarrow>
            ProcessKeyEvent depth env keyval keycode modifiers e w = (Some (False, e1), emit translation w1) \<and>
            filter is_session_call (trace (snd (ProcessKeyEvent depth env keyval keycode modifiers e w))) =
              filter is_session_call (trace w) @ (if OS_CHROMEOS env then [Session_GetConfig] else [])) \<and>
         (IsTurnOnInDirectMode env key \<longrightarrow>
            (\<exists>rest. trace (snd (ProcessKeyEvent depth env keyval keycode modifiers e w)) =
                      trace w1 @ [translation, Session_SendKey key] @ rest))"
proof (intro conjI impI)
  have mode: "current_composition_mode e1 = DIRECT"
    using assms(2,4) UpdatePreeditMethod_mode [of env e w]
    by (auto split: if_splits)
  have calls: "filter is_session_call (trace w1) =
      filter is_session_call (trace w) @ (if OS_CHROMEOS env then [Session_GetConfig] else [])"
    using assms(2) UpdatePreeditMethod_session_calls [of env e w]
    by (auto split: if_splits)
  {
    assume off: "\<not> IsTurnOnInDirectMode env key"
    with assms mode
    show r: "ProcessKeyEvent depth env keyval keycode modifiers e w = (Some (False, e1), emit translation w1)"
      by (simp add: ProcessKeyEvent_def Let_def)
    show "filter is_session_call (trace (snd (ProcessKeyEvent depth env keyval keycode modifiers e w))) =
              filter is_session_call (trace w) @ (if OS_CHROMEOS env then [Session_GetConfig] else [])"
      unfolding r using calls assms(5)
      by (simp add: emit_def is_session_call_def)
  }
  {
    assume on: "IsTurnOnInDirectMode env key"
    let ?w2 = "emit translation w1"
    obtain ok out s where k: "SendKey env (sess ?w2) key = (ok, out, s)"
      by (metis prod.exhaust)
    let ?w3 = "emit (Session_SendKey key) (?w2\<lparr>sess := s\<rparr>)"
    have t3: "trace ?w3 = trace w1 @ [translation, Session_SendKey key]"
      by (simp add: emit_def)
    show "\<exists>rest. trace (snd (ProcessKeyEvent depth env keyval keycode modifiers e w)) =
                      trace w1 @ [translation, Session_SendKey key] @ rest"
    proof (cases ok)
      case False
      with assms on k
      have "snd (ProcessKeyEvent depth env keyval keycode modifiers e w) = emit (LOG_ERROR ''SendKey failed'') ?w3"
        by (simp add: ProcessKeyEvent_def Let_def)
      then show ?thesis
        by (simp add: emit_def)
    next
      case True
      with assms on k
      have "snd (ProcessKeyEvent depth env keyval keycode modifiers e w) = snd (UpdateAll depth env out e1 ?w3)"
        by (simp add: ProcessKeyEvent_def Let_def split: prod.splits option.splits)
      moreover obtain evs where "trace (snd (UpdateAll depth env out e1 ?w3)) = trace ?w3 @ evs"
        using UpdateAll_extends [of ?w3 depth env out e1]
        by (auto simp: extends_by_def)
      ultimately show ?thesis
        using t3 by simp
    qed
  }
qed

theorem ProcessKeyEvent_direct_witness:
  "ProcessKeyEvent (Suc 0) example_env 97 38 0 example_engine example_world =
     (Some (False, example_engine), \<lparr>sess = 0, trace = [KeyTranslator_Translate 97 38 0 ROMAN True]\<rparr>) \<and>
   (\<exists>rest. trace (snd (ProcessKeyEvent (Suc 0) example_env 0xFF23 0 0 example_engine example_world)) =
      [KeyTranslator_Translate 0xFF23 0 0 ROMAN True, Session_SendKey (SpecialKey ON)] @ rest)"
proof -
  have release: "(0 :: 32 word) AND IBUS_RELEASE_MASK example_env = 0"
    by simp
  have build: "(if OS_CHROMEOS example_env then UpdatePreeditMethod example_env example_engine example_world
                else (example_engine, example_world)) = (example_engine, example_world)"
    by (simp add: example_defs)
  have roman: "preedit_method_member example_engine = ROMAN"
    by (simp add: example_defs)
  have a: "Translate example_env 97 38 0 (preedit_method_member example_engine) (layout_is_jp example_env) =
             Some (KeyCode 97)"
    by (simp add: example_defs)
  have h: "Translate example_env 0xFF23 0 0 (preedit_method_member example_engine) (layout_is_jp example_env) =
             Some (SpecialKey ON)"
    by (simp add: example_defs)
  have direct: "current_composition_mode example_engine = DIRECT"
    by (simp add: example_defs)
  have off: "\<not> IsTurnOnInDirectMode example_env (KeyCode 97)"
    by (simp add: example_defs)
  have on: "IsTurnOnInDirectMode example_env (SpecialKey ON)"
    by (simp add: example_defs)
  have jp: "layout_is_jp example_env"
    by (simp add: example_defs)
  from ProcessKeyEvent_direct [OF release build a direct refl, of "Suc 0"] off roman jp
  have "ProcessKeyEvent (Suc 0) example_env 97 38 0 example_engine example_world =
     (Some (False, example_engine), \<lparr>sess = 0, trace = [KeyTranslator_Translate 97 38 0 ROMAN True]\<rparr>)"
    by (simp add: emit_def example_world_def)
  moreover from ProcessKeyEvent_direct [OF release build h direct refl, of "Suc 0"] on roman jp
  have "\<exists>rest. trace (snd (ProcessKeyEvent (Suc 0) example_env 0xFF23 0 0 example_engine example_world)) =
      [KeyTranslator_Translate 0xFF23 0 0 ROMAN True, Session_SendKey (SpecialKey ON)] @ rest"
    by (simp add: example_world_def)
  ultimately show ?thesis ..
qed

text \<open>
  The claim as written, "without any session client call", fails in the
  \<open>OS_CHROMEOS\<close> build: an ordinary key in \<open>DIRECT\<close> mode is rejected, but
  \<open>GetConfig\<close> has been called.
\<close>

theorem ProcessKeyEvent_direct_counterexample:
  "current_composition_mode (MozcEngine_constructor example_chromeos_env 1000) = DIRECT \<and>
   Translate example_chromeos_env 97 38 0 ROMAN True = Some (KeyCode 97) \<and>
   \<not> IsTurnOnInDirectMode example_chromeos_env (KeyCode 97) \<and>
   ProcessKeyEvent (Suc 0) example_chromeos_env 97 38 0
       (MozcEngine_constructor example_chromeos_env 1000) example_world =
     (Some (False, MozcEngine_constructor example_chromeos_env 1000),
      \<lparr>sess = 1, trace = [Session_GetConfig, KeyTranslator_Translate 97 38 0 ROMAN True]\<rparr>)"
  by (simp add: example_defs ProcessKeyEvent_def UpdatePreeditMethod_def emit_def)

subsection \<open>Preedit text\<close>

lemma consistent_lengths_Cons:
  "consistent_lengths (seg # rest) =
     (unat (seg_value_length seg) = length (seg_value seg) \<and> consistent_lengths rest)"
  by (simp add: consistent_lengths_def)

lemma consistent_lengths_sum:
  "consistent_lengths segs \<Longrightarrow>
     sum_list (map (\<lambda>s. unat (seg_value_length s)) segs) = length (concat (map seg_value segs))"
  by (induction segs) (simp_all add: consistent_lengths_def)

lemma is_underline_simps:
  "is_underline \<lparr>attr_kind = IBUS_ATTR_TYPE_UNDERLINE u, start_index = s, end_index = t\<rparr>"
  "\<not> is_underline \<lparr>attr_kind = IBUS_ATTR_TYPE_BACKGROUND c, start_index = s, end_index = t\<rparr>"
  "\<not> is_underline \<lparr>attr_kind = IBUS_ATTR_TYPE_FOREGROUND c, start_index = s, end_index = t\<rparr>"
  by (simp_all add: is_underline_def)

lemma span_record:
  "span \<lparr>attr_kind = k, start_index = s, end_index = t\<rparr> = (sint s, sint t)"
  by (simp add: span_def)

lemma sint_below:
  fixes x :: "32 word"
  assumes "unat x < 2 ^ 31"
  shows "sint x = int (unat x)"
proof -
  have "int (unat x) < int (2 ^ 31)"
    using assms by (simp only: of_nat_less_iff)
  then have below: "uint x < 2 ^ 31"
    by simp
  have "- (2 ^ 31) \<le> uint x"
    by (rule order_trans [OF _ uint_ge_0]) simp
  then have "signed_take_bit 31 (uint x) = uint x"
    using below by (rule signed_take_bit_int_eq_self)
  then show ?thesis
    by (simp add: sint_uint)
qed

lemma underline_attributes:
  "filter is_underline (append_attributes s t (seg # rest)) =
     \<lparr>attr_kind = IBUS_ATTR_TYPE_UNDERLINE (underline_of (seg_annotation seg)),
      start_index = s, end_index = t + seg_value_length seg\<rparr> #
     filter is_underline
       (append_attributes (t + seg_value_length seg) (t + seg_value_length seg) rest)"
  by (simp add: Let_def is_underline_simps)

lemma underline_count: "length (filter is_underline (append_attributes s t segs)) = length segs"
proof (induction segs arbitrary: s t)
  case Nil
  show ?case by simp
next
  case (Cons seg rest)
  show ?case
    unfolding underline_attributes by (simp add: Cons.IH)
qed

lemma append_attributes_tiles:
  assumes "consistent_lengths segs"
    and "unat s + length (concat (map seg_value segs)) < 2 ^ 31"
  shows "tiles (int (unat s)) (map span (filter is_underline (append_attributes s s segs)))
           (int (unat s + length (concat (map seg_value segs))))"
  using assms
proof (induction segs arbitrary: s)
  case Nil
  show ?case by simp
next
  case (Cons seg rest)
  let ?t = "s + seg_value_length seg"
  from Cons.prems(1) have len: "unat (seg_value_length seg) = length (seg_value seg)"
    and rest: "consistent_lengths rest"
    by (simp_all add: consistent_lengths_Cons)
  from Cons.prems(2) have small: "unat s + length (seg_value seg) < 2 ^ 31"
    by simp
  then have "unat s + unat (seg_value_length seg) < 2 ^ LENGTH(32)"
    using len by simp
  then have t: "unat ?t = unat s + length (seg_value seg)"
    using len by (simp add: unat_add_lem [THEN iffD1])
  from small have s: "sint s = int (unat s)"
    by (intro sint_below) simp
  from small t have t': "sint ?t = int (unat s + length (seg_value seg))"
    by (simp add: sint_below)
  from Cons.prems(2) t have "unat ?t + length (concat (map seg_value rest)) < 2 ^ 31"
    by simp
  with rest have "tiles (int (unat ?t)) (map span (filter is_underline (append_attributes ?t ?t rest)))
           (int (unat ?t + length (concat (map seg_value rest))))"
    by (rule Cons.IH)
  with t s t' show ?case
    unfolding underline_attributes by (simp add: span_record add.assoc)
qed

lemma append_attributes_spans:
  "a \<in> set (append_attributes s t segs) \<Longrightarrow>
     \<exists>u \<in> set (append_attributes s t segs). is_underline u \<and> span a = span u"
proof (induction segs arbitrary: s t)
  case Nil
  then show ?case by simp
next
  case (Cons seg rest)
  let ?t = "t + seg_value_length seg"
  let ?u = "\<lparr>attr_kind = IBUS_ATTR_TYPE_UNDERLINE (underline_of (seg_annotation seg)),
             start_index = s, end_index = ?t\<rparr>"
  have u: "?u \<in> set (append_attributes s t (seg # rest))" "is_underline ?u"
    by (simp_all add: Let_def is_underline_simps)
  from Cons.prems consider "span a = span ?u" | "a \<in> set (append_attributes ?t ?t rest)"
    by (auto simp: Let_def span_record split: if_splits)
  then show ?case
  proof cases
    case 1
    with u show ?thesis by blast
  next
    case 2
    then obtain v where "v \<in> set (append_attributes ?t ?t rest)" "is_underline v" "span a = span v"
      using Cons.IH by blast
    then show ?thesis
      by (auto simp: Let_def)
  qed
qed

lemma c_str_NUL_free: "NUL_free str \<Longrightarrow> c_str str = str"
  by (simp add: c_str_def NUL_free_def list_all_iff takeWhile_eq_all_conv)

text \<open>
  Whatever the segments hold, the composed text is their concatenation up to its first
  NUL, and the attributes are those of the loop over the \<open>value_length\<close> fields.
\<close>

lemma ComposePreeditText_text:
  "text_string (fst (ComposePreeditText p w)) = c_str (concat (map seg_value (pre_segment p))) \<and>
   text_attrs (fst (ComposePreeditText p w)) = append_attributes 0 0 (pre_segment p)"
  by (simp add: ComposePreeditText_def Let_def ibus_text_new_from_string_def)

lemma ComposePreeditText_ranges:
  assumes "consistent_lengths (pre_segment p)"
    and "length (concat (map seg_value (pre_segment p))) < 2 ^ 31"
  shows "tiles 0 (map span (filter is_underline (text_attrs (fst (ComposePreeditText p w)))))
           (int (length (concat (map seg_value (pre_segment p))))) \<and>
         length (text_string (fst (ComposePreeditText p w))) \<le>
           length (concat (map seg_value (pre_segment p)))"
proof -
  have "tiles (int (unat (0 :: 32 word)))
          (map span (filter is_underline (append_attributes 0 0 (pre_segment p))))
          (int (unat (0 :: 32 word) + length (concat (map seg_value (pre_segment p)))))"
    using assms by (intro append_attributes_tiles) simp_all
  then show ?thesis
    by (simp add: ComposePreeditText_text c_str_def length_takeWhile_le)
qed

text \<open>
  C5, with the two conditions the code needs. For a preedit whose \<open>value_length\<close>
  fields are the lengths of the segment texts, whose segment texts hold no character
  NUL, and whose text is shorter than \<open>2 ^ 31\<close> characters (the range of the \<open>int\<close>
  counters), the composed text is the concatenation of the segment values, the lengths
  sum to its length, there is one underline range for each segment and these ranges
  follow one another from 0 to the length of the text, each starting where the one
  before ended. Every other range (the background and foreground colours of a
  highlighted segment) lies on the span of an underline range.
\<close>

theorem ComposePreeditText_tiles:
  assumes "consistent_lengths (pre_segment p)"
    and "NUL_free (concat (map seg_value (pre_segment p)))"
    and "length (concat (map seg_value (pre_segment p))) < 2 ^ 31"
  shows "text_string (fst (ComposePreeditText p w)) = concat (map seg_value (pre_segment p)) \<and>
         sum_list (map (\<lambda>s. unat (seg_value_length s)) (pre_segment p)) =
           length (text_string (fst (ComposePreeditText p w))) \<and>
         length (filter is_underline (text_attrs (fst (ComposePreeditText p w)))) =
           length (pre_segment p) \<and>
         tiles 0 (map span (filter is_underline (text_attrs (fst (ComposePreeditText p w)))))
           (int (length (text_string (fst (ComposePreeditText p w))))) \<and>
         (\<forall>a \<in> set (text_attrs (fst (ComposePreeditText p w))).
            \<exists>u \<in> set (text_attrs (fst (ComposePreeditText p w))). is_underline u \<and> span a = span u)"
proof -
  have "tiles (int (unat (0 :: 32 word)))
          (map span (filter is_underline (append_attributes 0 0 (pre_segment p))))
          (int (unat (0 :: 32 word) + length (concat (map seg_value (pre_segment p)))))"
    using assms(1,3) by (intro append_attributes_tiles) simp_all
  then have "tiles 0 (map span (filter is_underline (append_attributes 0 0 (pre_segment p))))
          (int (length (concat (map seg_value (pre_segment p)))))"
    by simp
  then show ?thesis
    using consistent_lengths_sum [OF assms(1)] append_attributes_spans [of _ 0 0 "pre_segment p"]
      c_str_NUL_free [OF assms(2)]
    by (simp add: ComposePreeditText_text underline_count)
qed

theorem ComposePreeditText_tiles_witness:
  "text_string (fst (ComposePreeditText example_preedit example_world)) = [12431, 12383, 12375] \<and>
   map span (filter is_underline (text_attrs (fst (ComposePreeditText example_preedit example_world)))) =
     [(0, 2), (2, 3)] \<and>
   tiles 0 [(0, 2), (2, 3)] 3"
proof -
  have c: "consistent_lengths (pre_segment example_preedit)"
    by (simp add: example_preedit_def consistent_lengths_def)
  have n: "NUL_free (concat (map seg_value (pre_segment example_preedit)))"
    by (simp add: example_preedit_def NUL_free_def)
  have l: "length (concat (map seg_value (pre_segment example_preedit))) < 2 ^ 31"
    by (simp add: example_preedit_def)
  have s: "map span (filter is_underline (text_attrs (fst (ComposePreeditText example_preedit example_world)))) =
             [(0, 2), (2, 3)]"
    by (simp add: example_preedit_def ComposePreeditText_text Let_def is_underline_simps span_record)
  from ComposePreeditText_tiles [OF c n l, of example_world] s show ?thesis
    by (simp add: example_preedit_def)
qed

text \<open>
  The claim as written fails for a segment that holds a NUL: its length field is
  consistent, yet the composed text is only the part before the NUL, one character long,
  under a range from 0 to 3.
\<close>

theorem ComposePreeditText_tiles_counterexample:
  "consistent_lengths (pre_segment NUL_preedit) \<and>
   concat (map seg_value (pre_segment NUL_preedit)) = [97, 0, 98] \<and>
   text_string (fst (ComposePreeditText NUL_preedit example_world)) = [97] \<and>
   map span (text_attrs (fst (ComposePreeditText NUL_preedit example_world))) = [(0, 3)]"
  by (simp add: NUL_preedit_def consistent_lengths_def ComposePreeditText_text c_str_def Let_def
      span_record)

subsection \<open>Configuration updates\<close>






text \<open>A notification for another section, or one that lacks an argument, is ignored.\<close>

lemma UpdateConfig_ignored:
  "section_arg = None \<or> name_arg = None \<or> gvalue_arg = None \<or> section_arg \<noteq> Some kMozcSectionName \<Longrightarrow>
     UpdateConfig env section_arg name_arg gvalue_arg w = Inr w"
  by (auto simp: UpdateConfig_def split: option.splits)

text \<open>
  The diagnostics of the dropped updates, and the two inputs on which the call ends the
  process instead of dropping the update: a string that names a value of another
  enumeration of the schema passes the lookup in the message's descriptor and is
  refused by \<open>SetEnum\<close>, and a string value may be \<open>NULL\<close>.
\<close>

lemma UpdateConfig_diagnostics:
  "UpdateConfig example_chromeos_env (Some kMozcSectionName) (Some ''no_such_field'')
      (Some (G_INT 1)) example_world =
     Inr \<lparr>sess = 0, trace = [LOG_ERROR ''Unknown config name: no_such_field'']\<rparr>"
  "UpdateConfig example_chromeos_env (Some kMozcSectionName) (Some ''incognito_mode'')
      (Some (G_INT 1)) example_world =
     Inr \<lparr>sess = 0, trace = [LOG_ERROR ''Bad GValue type for incognito_mode'']\<rparr>"
  "UpdateConfig example_chromeos_env (Some kMozcSectionName) (Some ''preedit_method'')
      (Some (G_STRING (Some ''QWERTY''))) example_world =
     Inr \<lparr>sess = 0, trace = [LOG_ERROR ''Bad GValue value for preedit_method: QWERTY'']\<rparr>"
  "UpdateConfig example_chromeos_env (Some kMozcSectionName) (Some ''custom_keymap_table'')
      (Some (G_STRING (Some ''x''))) example_world =
     Inr \<lparr>sess = 0, trace = [LOG_ERROR ''Unknown or unsupported type: custom_keymap_table: 9'']\<rparr>"
  by (simp_all add: example_defs UpdateConfig_def emit_def cpp_type_number_def decimal_def digits.simps)

lemma UpdateConfig_fatal:
  "UpdateConfig example_chromeos_env (Some kMozcSectionName) (Some ''preedit_method'')
      (Some (G_STRING (Some ''ATOK''))) example_world = Inl EnumTypeMismatch"
  "UpdateConfig example_chromeos_env (Some kMozcSectionName) (Some ''preedit_method'')
      (Some (G_STRING None)) example_world = Inl NullStringValue"
  by (simp_all add: example_defs UpdateConfig_def SetEnum_def usage_check_def)

subsection \<open>Activation of a foreign property\<close>

text \<open>
  C8 says that activating a key found in neither menu changes nothing. With the state
  \<open>PROP_STATE_CHECKED\<close> the loop over the radio items runs all the same and, finding no
  match, unchecks every item: the menu is left with no checked entry, and the changed
  menu is pushed to the host. No session call is made and the icon and the
  composition mode stay.
\<close>

lemma radio_loop_foreign:
  assumes "name \<notin> item_key ` set (prop_composition_mode_sub_props e)"
  shows "radio_loop set_mode env name [k..<length (prop_composition_mode_sub_props e)] e w =
           (Some (e\<lparr>prop_composition_mode_sub_props :=
                      take k (prop_composition_mode_sub_props e) @
                      map uncheck (drop k (prop_composition_mode_sub_props e))\<rparr>), w)"
  using assms
proof (induction "length (prop_composition_mode_sub_props e) - k" arbitrary: k e)
  case 0
  then show ?case by simp
next
  case (Suc n)
  let ?props = "prop_composition_mode_sub_props e"
  let ?e' = "set_item_state k PROP_STATE_UNCHECKED e"
  from Suc.hyps(2) have k: "k < length ?props"
    by simp
  then have key: "name \<noteq> item_key (?props ! k)"
    using Suc.prems by (metis image_eqI nth_mem)
  have props': "prop_composition_mode_sub_props ?e' = ?props[k := uncheck (?props ! k)]"
    by (simp add: set_item_state_def uncheck_def)
  have len': "length (prop_composition_mode_sub_props ?e') = length ?props"
    by (simp add: props')
  have "item_key ` set (?props[k := uncheck (?props ! k)]) \<subseteq> item_key ` set ?props"
  proof
    fix x
    assume "x \<in> item_key ` set (?props[k := uncheck (?props ! k)])"
    then obtain item where item: "item \<in> set (?props[k := uncheck (?props ! k)])" and x: "x = item_key item"
      by blast
    from item have "item = uncheck (?props ! k) \<or> item \<in> set ?props"
      using set_update_subset_insert [of ?props k "uncheck (?props ! k)"] by blast
    then show "x \<in> item_key ` set ?props"
    proof
      assume "item = uncheck (?props ! k)"
      with x have "x = item_key (?props ! k)"
        by (simp add: uncheck_def)
      with k show ?thesis by simp
    next
      assume "item \<in> set ?props"
      with x show ?thesis by blast
    qed
  qed
  with Suc.prems have foreign': "name \<notin> item_key ` set (prop_composition_mode_sub_props ?e')"
    unfolding props' by blast
  from Suc.hyps(2) have n: "n = length (prop_composition_mode_sub_props ?e') - Suc k"
    by (simp add: len')
  have shape: "take (Suc k) (?props[k := uncheck (?props ! k)]) @
               map uncheck (drop (Suc k) (?props[k := uncheck (?props ! k)])) =
               take k ?props @ map uncheck (drop k ?props)"
    using k by (simp add: take_Suc_conv_app_nth Cons_nth_drop_Suc [symmetric])
  have upd: "?e'\<lparr>prop_composition_mode_sub_props := take k ?props @ map uncheck (drop k ?props)\<rparr> =
             e\<lparr>prop_composition_mode_sub_props := take k ?props @ map uncheck (drop k ?props)\<rparr>"
    by (simp add: set_item_state_def)
  have "radio_loop set_mode env name [Suc k..<length (prop_composition_mode_sub_props ?e')] ?e' w =
           (Some (?e'\<lparr>prop_composition_mode_sub_props :=
                      take (Suc k) (prop_composition_mode_sub_props ?e') @
                      map uncheck (drop (Suc k) (prop_composition_mode_sub_props ?e'))\<rparr>), w)"
    using n foreign' by (rule Suc.hyps(1))
  then have IH: "radio_loop set_mode env name [Suc k..<length ?props] ?e' w =
           (Some (e\<lparr>prop_composition_mode_sub_props := take k ?props @ map uncheck (drop k ?props)\<rparr>), w)"
    unfolding len' unfolding props' shape upd .
  from k have "[k..<length ?props] = k # [Suc k..<length ?props]"
    by (simp add: upt_conv_Cons)
  with k key IH show ?case
    by simp
qed

lemma PropertyActivate_foreign_key:
  fixes env :: "'s env"
  assumes "find_tool_item env name e = None"
    and "name \<notin> item_key ` set (prop_composition_mode_sub_props e)"
  shows "PropertyActivate depth env name PROP_STATE_CHECKED e w =
           (Some (e\<lparr>prop_composition_mode_sub_props := map uncheck (prop_composition_mode_sub_props e)\<rparr>),
            emit (Host (ibus_engine_update_property (prop_composition_mode_icon e)
                          (map uncheck (prop_composition_mode_sub_props e)))) w)"
  using assms(1) radio_loop_foreign [OF assms(2), of _ env 0 w]
  by (simp add: PropertyActivate_def PropertyActivate_body_def and_then_def)

text \<open>
  C8 at an example: the engine as constructed has \<open>Direct\<close> checked; after the
  activation of the key \<open>Foreign\<close> nothing is checked, while the mode is still
  \<open>DIRECT\<close>.
\<close>

theorem PropertyActivate_foreign_key_example:
  "find_tool_item example_env ''Foreign'' example_engine = None \<and>
   map item_key (prop_composition_mode_sub_props example_engine) = [''Direct'', ''Hiragana''] \<and>
   map item_state (prop_composition_mode_sub_props example_engine) =
     [PROP_STATE_CHECKED, PROP_STATE_UNCHECKED] \<and>
   map item_state (prop_composition_mode_sub_props
      (the (fst (PropertyActivate (Suc 0) example_env ''Foreign'' PROP_STATE_CHECKED
                   example_engine example_world)))) =
     [PROP_STATE_UNCHECKED, PROP_STATE_UNCHECKED] \<and>
   current_composition_mode
      (the (fst (PropertyActivate (Suc 0) example_env ''Foreign'' PROP_STATE_CHECKED
                   example_engine example_world))) = DIRECT"
proof -
  have t: "find_tool_item example_env ''Foreign'' example_engine = None"
    by (simp add: example_defs find_tool_item_def)
  have k: "''Foreign'' \<notin> item_key ` set (prop_composition_mode_sub_props example_engine)"
    by (simp add: example_defs)
  show ?thesis
    unfolding PropertyActivate_foreign_key [OF t k]
    by (simp add: t) (simp add: example_defs uncheck_def)
qed

subsection \<open>The quality harness\<close>

lemma send_keys_ON:
  "send_keys env (SpecialKey ON # keys) out0 w =
     (case call_SendKey env (SpecialKey ON) w of (out, w0) \<Rightarrow> send_keys env keys out w0)"
  by simp






end
